theory Spec2Isabelle
  imports Main "HOL-Library.AList"
begin

section \<open>Python values handled by the client\<close>

text \<open>
  The client stores whatever \<^verbatim>\<open>json.loads\<close> and \<^verbatim>\<open>Response.json()\<close> hand back, so its
  fields range over decoded JSON values: \<^verbatim>\<open>None\<close>, booleans, integers, strings, lists and
  dictionaries with string keys. A dictionary is an association list in insertion order.
  Floating-point numbers are left out of the value domain.
\<close>

datatype json =
    JNull
  | JBool bool
  | JNum int
  | JStr string
  | JArr "json list"
  | JObj "(string \<times> json) list"

text \<open>The exceptions the code can meet; every one of them is caught by \<^verbatim>\<open>except Exception\<close>.\<close>

datatype exn =
    AttributeError
  | TypeError
  | KeyError
  | IndexError
  | ValueError
  | ConnectionError
  | OSError

text \<open>Truth value of an object, as \<^verbatim>\<open>if self.releaseKey:\<close> and \<^verbatim>\<open>if filename:\<close> test it.\<close>

fun truthy :: "json \<Rightarrow> bool" where
  "truthy JNull = False"
| "truthy (JBool b) = b"
| "truthy (JNum n) = (n \<noteq> 0)"
| "truthy (JStr s) = (s \<noteq> [])"
| "truthy (JArr xs) = (xs \<noteq> [])"
| "truthy (JObj kvs) = (kvs \<noteq> [])"

text \<open>
  \<^verbatim>\<open>if filename:\<close> on a file name that is a string or \<^verbatim>\<open>None\<close>: the name when the
  test passes.
\<close>

fun checked_name :: "string option \<Rightarrow> string option" where
  "checked_name None = None"
| "checked_name (Some s) = (if s = [] then None else Some s)"

text \<open>\<^verbatim>\<open>v[key]\<close> with a string key: a dictionary looks the key up, every other value raises.\<close>

fun getitem_str :: "json \<Rightarrow> string \<Rightarrow> exn + json" where
  "getitem_str (JObj kvs) k = (case map_of kvs k of None \<Rightarrow> Inl KeyError | Some v \<Rightarrow> Inr v)"
| "getitem_str v k = Inl TypeError"

text \<open>
  \<^verbatim>\<open>v[0]\<close>: the first element of a list, the first character of a string; a dictionary
  decoded from JSON has no integer key.
\<close>

fun getitem_zero :: "json \<Rightarrow> exn + json" where
  "getitem_zero (JArr []) = Inl IndexError"
| "getitem_zero (JArr (x # xs)) = Inr x"
| "getitem_zero (JStr []) = Inl IndexError"
| "getitem_zero (JStr (c # cs)) = Inr (JStr [c])"
| "getitem_zero (JObj kvs) = Inl KeyError"
| "getitem_zero v = Inl TypeError"

text \<open>\<^verbatim>\<open>v[key] = x\<close> with a string key: only a dictionary supports it.\<close>

fun setitem_str :: "json \<Rightarrow> string \<Rightarrow> json \<Rightarrow> exn + json" where
  "setitem_str (JObj kvs) k x = Inr (JObj (AList.update k x kvs))"
| "setitem_str v k x = Inl TypeError"

text \<open>
  \<^verbatim>\<open>v.get(key)\<close>: a dictionary answers the value or \<^verbatim>\<open>None\<close>; no other JSON value has
  an attribute \<^verbatim>\<open>get\<close>.
\<close>

fun dict_get :: "json \<Rightarrow> string \<Rightarrow> exn + json" where
  "dict_get (JObj kvs) k = Inr (case map_of kvs k of None \<Rightarrow> JNull | Some v \<Rightarrow> v)"
| "dict_get v k = Inl AttributeError"

text \<open>Whether a value is a dictionary.\<close>

fun is_dict :: "json \<Rightarrow> bool" where
  "is_dict (JObj kvs) = True"
| "is_dict v = False"

text \<open>
  An association list stands for a dictionary, which has every key once. A value is proper
  when no dictionary in it has a key twice, as every value that Python decodes is.
\<close>

fun proper :: "json \<Rightarrow> bool"
  and proper_elems :: "json list \<Rightarrow> bool"
  and proper_members :: "(string \<times> json) list \<Rightarrow> bool" where
  "proper JNull = True"
| "proper (JBool b) = True"
| "proper (JNum n) = True"
| "proper (JStr s) = True"
| "proper (JArr xs) = proper_elems xs"
| "proper (JObj kvs) = (distinct (map fst kvs) \<and> proper_members kvs)"
| "proper_elems [] = True"
| "proper_elems (x # xs) = (proper x \<and> proper_elems xs)"
| "proper_members [] = True"
| "proper_members ((k, v) # kvs) = (proper v \<and> proper_members kvs)"

section \<open>String formatting\<close>

text \<open>
  A \<^typ>\<open>string\<close> is a Python \<^verbatim>\<open>str\<close> whose code points are below 256, one
  \<^typ>\<open>char\<close> per code point.
\<close>

text \<open>The decimal digit for a number below 10.\<close>

definition digit_char :: "nat \<Rightarrow> char" where
  "digit_char n = ''0123456789'' ! n"

fun str_nat :: "nat \<Rightarrow> string" where
  "str_nat n = (if n < 10 then [digit_char n] else str_nat (n div 10) @ [digit_char (n mod 10)])"

declare str_nat.simps [simp del]

text \<open>\<^verbatim>\<open>str(n)\<close> of an integer.\<close>

definition str_int :: "int \<Rightarrow> string" where
  "str_int i = (if i < 0 then CHR ''-'' # str_nat (nat (- i)) else str_nat (nat i))"

text \<open>
  \<^verbatim>\<open>"%d" % v\<close>: an integer is printed in decimal and a boolean as 1 or 0; any other
  JSON value raises \<^verbatim>\<open>TypeError\<close>.
\<close>

fun format_d :: "json \<Rightarrow> exn + string" where
  "format_d (JNum n) = Inr (str_int n)"
| "format_d (JBool b) = Inr (if b then ''1'' else ''0'')"
| "format_d v = Inl TypeError"

text \<open>\<^verbatim>\<open>"%s" % name\<close> for the namespace name, which is a string or still \<^verbatim>\<open>None\<close>.\<close>

fun format_s :: "string option \<Rightarrow> string" where
  "format_s None = ''None''"
| "format_s (Some s) = s"

text \<open>\<^verbatim>\<open>s.strip("/")\<close>: leading and trailing slashes removed.\<close>

definition strip_slash :: "string \<Rightarrow> string" where
  "strip_slash s =
     rev (dropWhile (\<lambda>c. c = CHR ''/'') (rev (dropWhile (\<lambda>c. c = CHR ''/'') s)))"

section \<open>The libraries and the outside world\<close>

text \<open>
  The client calls into \<^verbatim>\<open>json\<close>, \<^verbatim>\<open>urllib\<close> and \<^verbatim>\<open>requests\<close>. What these
  libraries compute is a parameter of the model:
  \<^item> \<open>json_loads\<close> is \<^verbatim>\<open>json.loads\<close>, with \<open>None\<close> when it raises;
  \<^item> \<open>json_dumps\<close> is \<^verbatim>\<open>json.dumps\<close>;
  \<^item> \<open>quote\<close> is \<^verbatim>\<open>urllib.parse.quote\<close>;
  \<^item> \<open>str_container\<close> is \<^verbatim>\<open>str\<close> on a list or a dictionary;
  \<^item> \<open>requests_status_code\<close> tells whether the module \<^verbatim>\<open>requests\<close> has an attribute
    \<^verbatim>\<open>status_code\<close>, which the last line of \<^verbatim>\<open>update_config\<close> reads.
\<close>

record lib =
  json_loads :: "string \<Rightarrow> json option"
  json_dumps :: "json \<Rightarrow> string"
  quote :: "string \<Rightarrow> string"
  str_container :: "json \<Rightarrow> string"
  requests_status_code :: bool

text \<open>\<^verbatim>\<open>"{}".format(v)\<close>, that is \<^verbatim>\<open>str(v)\<close>.\<close>

fun py_str :: "lib \<Rightarrow> json \<Rightarrow> string" where
  "py_str L JNull = ''None''"
| "py_str L (JBool b) = (if b then ''True'' else ''False'')"
| "py_str L (JNum n) = str_int n"
| "py_str L (JStr s) = s"
| "py_str L (JArr xs) = str_container L (JArr xs)"
| "py_str L (JObj kvs) = str_container L (JObj kvs)"

text \<open>
  What \<^verbatim>\<open>requests.get(url)\<close> comes back with: no response at all (the call raises), or a
  response with its status code and the outcome of \<^verbatim>\<open>r.json()\<close> (\<open>None\<close> when the body
  is not JSON and the call raises).
\<close>

datatype http_result =
    No_response
  | Response int "json option"

type_synonym http = "string \<Rightarrow> http_result"

text \<open>
  A path of the file system holds nothing, a text, or something that exists and cannot be
  read as text, with the exception that \<^verbatim>\<open>open\<close> or \<^verbatim>\<open>f.read()\<close> raises on it:
  \<^verbatim>\<open>OSError\<close> for a directory or a permission problem, \<^verbatim>\<open>ValueError\<close> (a
  \<^verbatim>\<open>UnicodeDecodeError\<close>) for bytes that are not UTF-8.
\<close>

datatype file_node =
    Text string
  | Unreadable exn

text \<open>
  The effects the client has on the outside, in the order they happen.
  \<open>Enter_update_config\<close> marks an invocation of \<^verbatim>\<open>update_config\<close>; logging output is
  not recorded.
\<close>

datatype event =
    Enter_update_config
  | Http_get string
  | File_write string string
  | Sleep int

record world =
  files :: "string \<Rightarrow> file_node option"
  write_denied :: "string \<Rightarrow> bool"
  trace :: "event list"

definition emit :: "event \<Rightarrow> world \<Rightarrow> world" where
  "emit e w = w\<lparr>trace := trace w @ [e]\<rparr>"

text \<open>\<^verbatim>\<open>with open(path, "w", encoding="utf-8") as f: f.write(s)\<close>\<close>

definition write_file :: "string \<Rightarrow> string \<Rightarrow> world \<Rightarrow> exn + world" where
  "write_file path s w =
     (if write_denied w path then Inl OSError
      else Inr (emit (File_write path s) (w\<lparr>files := (files w)(path \<mapsto> Text s)\<rparr>)))"

section \<open>The client\<close>

text \<open>
  The attributes of an \<^verbatim>\<open>ApolloPyClient\<close> object. \<open>config_url\<close> and
  \<open>notification_url\<close> do not exist before \<^verbatim>\<open>connect\<close> (\<open>None\<close>), and reading them
  then raises \<^verbatim>\<open>AttributeError\<close>.
\<close>

record client =
  sign :: bool
  releaseKey :: json
  filename :: "string option"
  namespaceName :: "string option"
  notificationId :: json
  configurations :: json
  config_url :: "string option"
  notification_url :: "string option"

text \<open>The attributes as \<^verbatim>\<open>__init__\<close> sets them before it looks at the file.\<close>

definition fresh :: "string option \<Rightarrow> client" where
  "fresh fn =
     \<lparr> sign = True, releaseKey = JNull, filename = fn, namespaceName = None,
       notificationId = JNum (- 1), configurations = JObj [],
       config_url = None, notification_url = None \<rparr>"

text \<open>
  \<^verbatim>\<open>__init__(filename)\<close>. The file is opened and read outside the \<^verbatim>\<open>try\<close>; parsing it
  and reading its \<^verbatim>\<open>releaseKey\<close> are inside, after the assignment to
  \<^verbatim>\<open>self.configurations\<close>.
\<close>

definition init :: "lib \<Rightarrow> world \<Rightarrow> string option \<Rightarrow> exn + client" where
  "init L w fn =
     (case checked_name fn of
        None \<Rightarrow> Inr (fresh fn)
      | Some path \<Rightarrow>
          (case files w path of
             None \<Rightarrow> Inr (fresh fn)
           | Some (Unreadable e) \<Rightarrow> Inl e
           | Some (Text r) \<Rightarrow>
               (case json_loads L r of
                  None \<Rightarrow> Inr (fresh fn)
                | Some v \<Rightarrow>
                    (case getitem_str v ''releaseKey'' of
                       Inl e \<Rightarrow> Inr ((fresh fn)\<lparr>configurations := v\<rparr>)
                     | Inr k \<Rightarrow> Inr ((fresh fn)\<lparr>configurations := v, releaseKey := k\<rparr>)))))"

text \<open>\<^verbatim>\<open>get(key)\<close>\<close>

definition get :: "client \<Rightarrow> string \<Rightarrow> exn + json" where
  "get c key = dict_get (configurations c) key"

text \<open>
  The URL \<^verbatim>\<open>update_config\<close> requests: \<^verbatim>\<open>self.config_url\<close>, with the release key
  appended when \<^verbatim>\<open>self.releaseKey\<close> is true.
\<close>

definition request_url :: "lib \<Rightarrow> client \<Rightarrow> exn + string" where
  "request_url L c =
     (case config_url c of
        None \<Rightarrow> Inl AttributeError
      | Some url \<Rightarrow>
          Inr (if truthy (releaseKey c) then url @ ''?releaseKey='' @ py_str L (releaseKey c)
               else url))"

text \<open>
  The last line of \<^verbatim>\<open>update_config\<close> formats \<^verbatim>\<open>requests.status_code\<close>, an attribute of
  the module, for the log.
\<close>

definition log_done :: "lib \<Rightarrow> exn + unit" where
  "log_done L = (if requests_status_code L then Inr () else Inl AttributeError)"

text \<open>
  \<^verbatim>\<open>update_config()\<close>. The result is the exception raised, if any, with the client and
  the world as the call leaves them: each assignment stays done when a later line raises.
\<close>

definition update_config :: "lib \<Rightarrow> http \<Rightarrow> client \<Rightarrow> world \<Rightarrow> (exn + unit) \<times> client \<times> world" where
  "update_config L h c w =
     (let w0 = emit Enter_update_config w in
      case request_url L c of
        Inl e \<Rightarrow> (Inl e, c, w0)
      | Inr url \<Rightarrow>
          (let w1 = emit (Http_get url) w0 in
           case h url of
             No_response \<Rightarrow> (Inl ConnectionError, c, w1)
           | Response code body \<Rightarrow>
               if code \<noteq> 304 then
                 (case body of
                    None \<Rightarrow> (Inl ValueError, c, w1)
                  | Some j \<Rightarrow>
                      (case getitem_str j ''configurations'' of
                         Inl e \<Rightarrow> (Inl e, c, w1)
                       | Inr cfg \<Rightarrow>
                           (let c1 = c\<lparr>configurations := cfg\<rparr> in
                            case getitem_str j ''releaseKey'' of
                              Inl e \<Rightarrow> (Inl e, c1, w1)
                            | Inr k \<Rightarrow>
                                (let c2 = c1\<lparr>releaseKey := k\<rparr> in
                                 case setitem_str cfg ''releaseKey'' k of
                                   Inl e \<Rightarrow> (Inl e, c2, w1)
                                 | Inr cfg' \<Rightarrow>
                                     (let c3 = c2\<lparr>configurations := cfg'\<rparr> in
                                      case checked_name (filename c3) of
                                        None \<Rightarrow> (log_done L, c3, w1)
                                      | Some path \<Rightarrow>
                                          (case write_file path (json_dumps L cfg') w1 of
                                             Inl e \<Rightarrow> (Inl e, c3, w1)
                                           | Inr w2 \<Rightarrow> (log_done L, c3, w2)))))))
               else (log_done L, c, w1)))"

text \<open>
  \<^verbatim>\<open>connect(server_url, appId, clusterName, namespaceName)\<close>: the three attributes are
  set, then \<^verbatim>\<open>update_config\<close> runs inside \<^verbatim>\<open>try\<close> and whatever it raises is logged and
  dropped.
\<close>

definition connect ::
  "lib \<Rightarrow> http \<Rightarrow> string \<Rightarrow> string \<Rightarrow> string \<Rightarrow> string \<Rightarrow> client \<Rightarrow> world \<Rightarrow> client \<times> world" where
  "connect L h server_url appId clusterName ns c w =
     (let c1 = c\<lparr>namespaceName := Some ns\<rparr>;
          c2 = c1\<lparr>config_url := Some (strip_slash server_url @ ''/configs/'' @ appId @ ''/''
                       @ clusterName @ ''/'' @ ns)\<rparr>;
          c3 = c2\<lparr>notification_url := Some (strip_slash server_url @ ''/notifications/v2?appId=''
                       @ appId @ ''&cluster='' @ clusterName @ ''&notifications='')\<rparr>;
          (r, c4, w4) = update_config L h c3 w
      in (c4, w4))"

text \<open>\<^verbatim>\<open>close()\<close>\<close>

definition close :: "client \<Rightarrow> client" where
  "close c = c\<lparr>sign := False\<rparr>"

section \<open>The two background loops\<close>

text \<open>
  One pass through the body of \<^verbatim>\<open>while self.sign:\<close> in \<^verbatim>\<open>schedule_update(interval)\<close>:
  \<^verbatim>\<open>update_config\<close> inside \<^verbatim>\<open>try\<close>, then \<^verbatim>\<open>time.sleep(interval)\<close> outside of it, which
  raises \<^verbatim>\<open>ValueError\<close> on a negative interval.
\<close>

definition schedule_update_body ::
  "lib \<Rightarrow> http \<Rightarrow> int \<Rightarrow> client \<Rightarrow> world \<Rightarrow> (exn + unit) \<times> client \<times> world" where
  "schedule_update_body L h interval c w =
     (let (r, c1, w1) = update_config L h c w in
      if interval < 0 then (Inl ValueError, c1, w1)
      else (Inr (), c1, emit (Sleep interval) w1))"

text \<open>
  The URL of the long poll: \<^verbatim>\<open>self.notification_url\<close> followed by the quoted JSON text
  that carries the namespace name and the notification id.
\<close>

definition notification_request_url :: "lib \<Rightarrow> client \<Rightarrow> exn + string" where
  \<open>notification_request_url L c =
     (case notification_url c of
        None \<Rightarrow> Inl AttributeError
      | Some url \<Rightarrow>
          (case format_d (notificationId c) of
             Inl e \<Rightarrow> Inl e
           | Inr d \<Rightarrow>
               Inr (url @ quote L (''[{"namespaceName": "'' @ format_s (namespaceName c)
                      @ ''", "notificationId": '' @ d @ ''}]''))))\<close>

text \<open>
  The notification id that a response to the long poll makes \<^verbatim>\<open>perceptual_update\<close>
  assign: the field \<^verbatim>\<open>notificationId\<close> of the first element of the body, when the status
  is not 304 and the body has one.
\<close>

definition announced :: "http_result \<Rightarrow> json option" where
  "announced res =
     (case res of
        No_response \<Rightarrow> None
      | Response code body \<Rightarrow>
          if code \<noteq> 304 then
            (case body of
               None \<Rightarrow> None
             | Some j \<Rightarrow>
                 (case getitem_zero j of
                    Inl e \<Rightarrow> None
                  | Inr first \<Rightarrow>
                      (case getitem_str first ''notificationId'' of
                         Inl e \<Rightarrow> None
                       | Inr n \<Rightarrow> Some n)))
          else None)"

text \<open>The \<^verbatim>\<open>except\<close> branch of \<^verbatim>\<open>perceptual_update\<close>: a warning and \<^verbatim>\<open>time.sleep(60)\<close>.\<close>

definition backoff :: "client \<Rightarrow> world \<Rightarrow> client \<times> world" where
  "backoff c w = (c, emit (Sleep 60) w)"

text \<open>
  One pass through the body of \<^verbatim>\<open>while self.sign:\<close> in \<^verbatim>\<open>perceptual_update(timeout)\<close>.
  The whole body is inside \<^verbatim>\<open>try\<close>; the argument \<^verbatim>\<open>timeout\<close> is not used.
\<close>

definition perceptual_update_body :: "lib \<Rightarrow> http \<Rightarrow> client \<Rightarrow> world \<Rightarrow> client \<times> world" where
  "perceptual_update_body L h c w =
     (case notification_request_url L c of
        Inl e \<Rightarrow> backoff c w
      | Inr url \<Rightarrow>
          (let w1 = emit (Http_get url) w in
           case h url of
             No_response \<Rightarrow> backoff c w1
           | Response code body \<Rightarrow>
               if code \<noteq> 304 then
                 (case body of
                    None \<Rightarrow> backoff c w1
                  | Some j \<Rightarrow>
                      (case getitem_zero j of
                         Inl e \<Rightarrow> backoff c w1
                       | Inr first \<Rightarrow>
                           (case getitem_str first ''notificationId'' of
                              Inl e \<Rightarrow> backoff c w1
                            | Inr n \<Rightarrow>
                                (case update_config L h (c\<lparr>notificationId := n\<rparr>) w1 of
                                   (Inl e, c2, w2) \<Rightarrow> backoff c2 w2
                                 | (Inr u, c2, w2) \<Rightarrow> (c2, w2)))))
               else (c, w1)))"

text \<open>
  \<^verbatim>\<open>listen\<close> starts \<^verbatim>\<open>schedule_update(interval)\<close> and \<^verbatim>\<open>perceptual_update(timeout)\<close>
  on threads of their own, and \<^verbatim>\<open>close\<close> is called from yet another thread, so the
  running system is the client, the world and the position of every loop thread: about to
  test \<^verbatim>\<open>self.sign\<close> in \<^verbatim>\<open>while self.sign:\<close>, inside the loop body, or finished (the
  loop was left, or an exception ended the thread). \<open>passes\<close> counts the passes through
  the body that the thread has completed.
\<close>

datatype pc = At_test | In_body | Finished

datatype loop = Schedule_update int | Perceptual_update int

record thread =
  loop :: loop
  pc :: pc
  passes :: nat

record sys =
  cl :: client
  wd :: world
  threads :: "thread list"

text \<open>
  What can happen next: a call of \<^verbatim>\<open>listen(interval, timeout)\<close> or of \<^verbatim>\<open>close()\<close>, thread
  \<open>i\<close> testing the loop condition, or thread \<open>i\<close> completing a pass through its loop body
  against the server behaviour \<open>h\<close>. The passes of different threads are not interleaved
  with each other below the level of one pass.
\<close>

datatype action =
    Call_listen int int
  | Call_close
  | Test nat
  | Pass nat http

definition listen :: "int \<Rightarrow> int \<Rightarrow> sys \<Rightarrow> sys" where
  "listen interval timeout s =
     s\<lparr>threads := threads s @
          [\<lparr>loop = Schedule_update interval, pc = At_test, passes = 0\<rparr>,
           \<lparr>loop = Perceptual_update timeout, pc = At_test, passes = 0\<rparr>]\<rparr>"

definition test_sign :: "nat \<Rightarrow> sys \<Rightarrow> sys" where
  "test_sign i s =
     (if i < length (threads s) \<and> pc (threads s ! i) = At_test then
        s\<lparr>threads := (threads s)[i := (threads s ! i)\<lparr>pc := (if sign (cl s) then In_body else Finished)\<rparr>]\<rparr>
      else s)"

definition pass :: "lib \<Rightarrow> nat \<Rightarrow> http \<Rightarrow> sys \<Rightarrow> sys" where
  "pass L i h s =
     (if i < length (threads s) \<and> pc (threads s ! i) = In_body then
        (let t = threads s ! i in
         case loop t of
           Schedule_update interval \<Rightarrow>
             (case schedule_update_body L h interval (cl s) (wd s) of
                (r, c1, w1) \<Rightarrow>
                  s\<lparr>cl := c1, wd := w1,
                    threads := (threads s)[i := t\<lparr>pc := (case r of Inl e \<Rightarrow> Finished | Inr u \<Rightarrow> At_test),
                                                 passes := Suc (passes t)\<rparr>]\<rparr>)
         | Perceptual_update timeout \<Rightarrow>
             (case perceptual_update_body L h (cl s) (wd s) of
                (c1, w1) \<Rightarrow>
                  s\<lparr>cl := c1, wd := w1,
                    threads := (threads s)[i := t\<lparr>pc := At_test, passes := Suc (passes t)\<rparr>]\<rparr>))
      else s)"

fun step :: "lib \<Rightarrow> sys \<Rightarrow> action \<Rightarrow> sys" where
  "step L s (Call_listen interval timeout) = listen interval timeout s"
| "step L s Call_close = s\<lparr>cl := close (cl s)\<rparr>"
| "step L s (Test i) = test_sign i s"
| "step L s (Pass i h) = pass L i h s"

fun run :: "lib \<Rightarrow> sys \<Rightarrow> action list \<Rightarrow> sys" where
  "run L s [] = s"
| "run L s (a # as) = run L (step L s a) as"

section \<open>A reference library\<close>

text \<open>
  Executable versions of the library functions, used to run the client on concrete files and
  responses. They follow Python 3 on strings with code points below 256 and on JSON texts
  without fractional numbers; a text that \<^verbatim>\<open>json.loads\<close> would decode to a value outside
  \<^typ>\<open>json\<close> (a float, a string with a code point from 256 on) is rejected.
\<close>

text \<open>The hexadecimal digit for a number below 16, in capitals or not.\<close>

definition hex_char :: "bool \<Rightarrow> nat \<Rightarrow> char" where
  "hex_char upper n = (if upper then ''0123456789ABCDEF'' else ''0123456789abcdef'') ! n"

definition code_point :: "char \<Rightarrow> nat" where
  "code_point c = of_char c"

subsection \<open>\<^verbatim>\<open>json.dumps\<close>\<close>

text \<open>
  The default settings: \<^verbatim>\<open>", "\<close> and \<^verbatim>\<open>": "\<close> as separators, and every character outside
  printable ASCII escaped.
\<close>

definition dumps_char :: "char \<Rightarrow> string" where
  "dumps_char c =
     (if c = CHR 0x22 then [CHR 0x5C, CHR 0x22]
      else if c = CHR 0x5C then [CHR 0x5C, CHR 0x5C]
      else if c = CHR 0x0A then [CHR 0x5C, CHR ''n'']
      else if c = CHR 0x0D then [CHR 0x5C, CHR ''r'']
      else if c = CHR 0x09 then [CHR 0x5C, CHR ''t'']
      else if c = CHR 0x08 then [CHR 0x5C, CHR ''b'']
      else if c = CHR 0x0C then [CHR 0x5C, CHR ''f'']
      else if 32 \<le> code_point c \<and> code_point c \<le> 126 then [c]
      else [CHR 0x5C, CHR ''u'', CHR ''0'', CHR ''0'',
            hex_char False (code_point c div 16), hex_char False (code_point c mod 16)])"

definition dumps_string :: "string \<Rightarrow> string" where
  "dumps_string s = CHR 0x22 # concat (map dumps_char s) @ [CHR 0x22]"

fun dumps :: "json \<Rightarrow> string"
  and dumps_elems :: "json list \<Rightarrow> string"
  and dumps_members :: "(string \<times> json) list \<Rightarrow> string" where
  "dumps JNull = ''null''"
| "dumps (JBool b) = (if b then ''true'' else ''false'')"
| "dumps (JNum n) = str_int n"
| "dumps (JStr s) = dumps_string s"
| "dumps (JArr xs) = ''['' @ dumps_elems xs @ '']''"
| "dumps (JObj kvs) = ''{'' @ dumps_members kvs @ ''}''"
| "dumps_elems [] = []"
| "dumps_elems [x] = dumps x"
| "dumps_elems (x # y # ys) = dumps x @ '', '' @ dumps_elems (y # ys)"
| "dumps_members [] = []"
| "dumps_members [(k, v)] = dumps_string k @ '': '' @ dumps v"
| "dumps_members ((k, v) # p # ps) = dumps_string k @ '': '' @ dumps v @ '', '' @ dumps_members (p # ps)"

subsection \<open>\<^verbatim>\<open>json.loads\<close>\<close>

definition is_ws :: "char \<Rightarrow> bool" where
  "is_ws c = (c = CHR '' '' \<or> c = CHR 0x0A \<or> c = CHR 0x0D \<or> c = CHR 0x09)"

fun skip_ws :: "string \<Rightarrow> string" where
  "skip_ws [] = []"
| "skip_ws (c # cs) = (if is_ws c then skip_ws cs else c # cs)"

definition digit_val :: "char \<Rightarrow> nat option" where
  "digit_val c =
     (if 48 \<le> code_point c \<and> code_point c \<le> 57 then Some (code_point c - 48) else None)"

definition hex_val :: "char \<Rightarrow> nat option" where
  "hex_val c =
     (if 48 \<le> code_point c \<and> code_point c \<le> 57 then Some (code_point c - 48)
      else if 65 \<le> code_point c \<and> code_point c \<le> 70 then Some (code_point c - 55)
      else if 97 \<le> code_point c \<and> code_point c \<le> 102 then Some (code_point c - 87)
      else None)"

fun take_digits :: "nat \<Rightarrow> string \<Rightarrow> nat \<times> string" where
  "take_digits acc [] = (acc, [])"
| "take_digits acc (c # cs) =
     (case digit_val c of None \<Rightarrow> (acc, c # cs) | Some d \<Rightarrow> take_digits (10 * acc + d) cs)"

text \<open>
  The digits of an integer, after an optional minus sign: a single 0 or a run of digits
  that does not start with 0. What follows must not turn the number into a float.
\<close>

definition parse_digits :: "string \<Rightarrow> (nat \<times> string) option" where
  "parse_digits s =
     (case s of
        [] \<Rightarrow> None
      | c # cs \<Rightarrow>
          (case digit_val c of
             None \<Rightarrow> None
           | Some d \<Rightarrow>
               (let (n, r) = (if d = 0 then (0, cs) else take_digits d cs) in
                case r of
                  [] \<Rightarrow> Some (n, r)
                | x # xs \<Rightarrow>
                    if x = CHR ''.'' \<or> x = CHR ''e'' \<or> x = CHR ''E'' then None else Some (n, r))))"

definition parse_number :: "string \<Rightarrow> (json \<times> string) option" where
  "parse_number s =
     (case s of
        [] \<Rightarrow> None
      | c # cs \<Rightarrow>
          if c = CHR ''-'' then
            (case parse_digits cs of None \<Rightarrow> None | Some (n, r) \<Rightarrow> Some (JNum (- int n), r))
          else
            (case parse_digits s of None \<Rightarrow> None | Some (n, r) \<Rightarrow> Some (JNum (int n), r)))"

definition unescape :: "char \<Rightarrow> char option" where
  "unescape e =
     (if e = CHR 0x22 \<or> e = CHR 0x5C \<or> e = CHR ''/'' then Some e
      else if e = CHR ''n'' then Some (CHR 0x0A)
      else if e = CHR ''r'' then Some (CHR 0x0D)
      else if e = CHR ''t'' then Some (CHR 0x09)
      else if e = CHR ''b'' then Some (CHR 0x08)
      else if e = CHR ''f'' then Some (CHR 0x0C)
      else None)"

definition hex4 :: "char \<Rightarrow> char \<Rightarrow> char \<Rightarrow> char \<Rightarrow> nat option" where
  "hex4 a b c d =
     (case (hex_val a, hex_val b, hex_val c, hex_val d) of
        (Some x, Some y, Some z, Some u) \<Rightarrow> Some (4096 * x + 256 * y + 16 * z + u)
      | _ \<Rightarrow> None)"

text \<open>The rest of a string after its opening quote; \<open>acc\<close> holds what was read, reversed.\<close>

fun parse_str :: "string \<Rightarrow> string \<Rightarrow> (string \<times> string) option" where
  "parse_str acc [] = None"
| "parse_str acc (c # cs) =
     (if c = CHR 0x22 then Some (rev acc, cs)
      else if c = CHR 0x5C then
        (case cs of
           [] \<Rightarrow> None
         | e # r \<Rightarrow>
             if e = CHR ''u'' then
               (case r of
                  a # b # x # y # r' \<Rightarrow>
                    (case hex4 a b x y of
                       None \<Rightarrow> None
                     | Some n \<Rightarrow> if n < 256 then parse_str (char_of n # acc) r' else None)
                | _ \<Rightarrow> None)
             else
               (case unescape e of None \<Rightarrow> None | Some x \<Rightarrow> parse_str (x # acc) r))
      else if code_point c < 32 then None
      else parse_str (c # acc) cs)"

definition literal :: "string \<Rightarrow> json \<Rightarrow> string \<Rightarrow> (json \<times> string) option" where
  "literal word v s =
     (if take (length word) s = word then Some (v, drop (length word) s) else None)"

text \<open>
  A value, the elements of an array after its opening bracket, and the members of an object
  after its opening brace. The first argument bounds the number of nested calls. A key
  that comes twice keeps its first place and its last value, as in a Python dictionary.
\<close>

fun parse_value :: "nat \<Rightarrow> string \<Rightarrow> (json \<times> string) option"
  and parse_elems :: "nat \<Rightarrow> json list \<Rightarrow> string \<Rightarrow> (json \<times> string) option"
  and parse_members :: "nat \<Rightarrow> (string \<times> json) list \<Rightarrow> string \<Rightarrow> (json \<times> string) option" where
  "parse_value 0 s = None"
| "parse_value (Suc n) s =
     (case skip_ws s of
        [] \<Rightarrow> None
      | c # cs \<Rightarrow>
          if c = CHR 0x22 then
            (case parse_str [] cs of None \<Rightarrow> None | Some (x, r) \<Rightarrow> Some (JStr x, r))
          else if c = CHR ''{'' then
            (case skip_ws cs of
               [] \<Rightarrow> None
             | d # r \<Rightarrow> if d = CHR ''}'' then Some (JObj [], r) else parse_members n [] cs)
          else if c = CHR ''['' then
            (case skip_ws cs of
               [] \<Rightarrow> None
             | d # r \<Rightarrow> if d = CHR '']'' then Some (JArr [], r) else parse_elems n [] cs)
          else if c = CHR ''n'' then literal ''null'' JNull (c # cs)
          else if c = CHR ''t'' then literal ''true'' (JBool True) (c # cs)
          else if c = CHR ''f'' then literal ''false'' (JBool False) (c # cs)
          else parse_number (c # cs))"
| "parse_elems 0 acc s = None"
| "parse_elems (Suc n) acc s =
     (case parse_value n s of
        None \<Rightarrow> None
      | Some (v, r) \<Rightarrow>
          (case skip_ws r of
             [] \<Rightarrow> None
           | d # r' \<Rightarrow>
               if d = CHR '','' then parse_elems n (acc @ [v]) r'
               else if d = CHR '']'' then Some (JArr (acc @ [v]), r')
               else None))"
| "parse_members 0 acc s = None"
| "parse_members (Suc n) acc s =
     (case skip_ws s of
        [] \<Rightarrow> None
      | q # cs \<Rightarrow>
          if q = CHR 0x22 then
            (case parse_str [] cs of
               None \<Rightarrow> None
             | Some (k, r) \<Rightarrow>
                 (case skip_ws r of
                    [] \<Rightarrow> None
                  | d # r' \<Rightarrow>
                      if d = CHR '':'' then
                        (case parse_value n r' of
                           None \<Rightarrow> None
                         | Some (v, r'') \<Rightarrow>
                             (case skip_ws r'' of
                                [] \<Rightarrow> None
                              | e # r3 \<Rightarrow>
                                  if e = CHR '','' then parse_members n (AList.update k v acc) r3
                                  else if e = CHR ''}'' then Some (JObj (AList.update k v acc), r3)
                                  else None))
                      else None))
          else None)"

text \<open>
  Two notions about JSON texts: a rest that may follow a value inside an array or an object
  (nothing, a comma or a closing bracket), and a character that can start a value.
\<close>

definition delimited :: "string \<Rightarrow> bool" where
  "delimited r = (case r of [] \<Rightarrow> True | c # cs \<Rightarrow> c = CHR '','' \<or> c = CHR '']'' \<or> c = CHR ''}'')"

definition opens_value :: "char \<Rightarrow> bool" where
  "opens_value c = (\<not> is_ws c \<and> c \<noteq> CHR '']'' \<and> c \<noteq> CHR ''}'')"

definition loads :: "string \<Rightarrow> json option" where
  "loads s =
     (case parse_value (Suc (length s)) s of
        None \<Rightarrow> None
      | Some (v, r) \<Rightarrow> if skip_ws r = [] then Some v else None)"

subsection \<open>\<^verbatim>\<open>urllib.parse.quote\<close>\<close>

text \<open>
  Letters, digits and the characters \<^verbatim>\<open>_.-~/\<close> stay; every other character becomes the
  percent-encoded bytes of its UTF-8 encoding.
\<close>

definition unreserved :: "char \<Rightarrow> bool" where
  "unreserved c =
     ((65 \<le> code_point c \<and> code_point c \<le> 90) \<or> (97 \<le> code_point c \<and> code_point c \<le> 122)
      \<or> (48 \<le> code_point c \<and> code_point c \<le> 57) \<or> c \<in> set ''_.-~/'')"

definition percent :: "nat \<Rightarrow> string" where
  "percent b = [CHR ''%'', hex_char True (b div 16), hex_char True (b mod 16)]"

definition quote_char :: "char \<Rightarrow> string" where
  "quote_char c =
     (if unreserved c then [c]
      else if code_point c < 128 then percent (code_point c)
      else percent (192 + code_point c div 64) @ percent (128 + code_point c mod 64))"

definition py_quote :: "string \<Rightarrow> string" where
  "py_quote s = concat (map quote_char s)"

subsection \<open>\<^verbatim>\<open>str\<close> of a list or a dictionary\<close>

text \<open>
  The elements are shown by \<^verbatim>\<open>repr\<close>. A string is put in single quotes, or in double
  quotes when it has a single quote and no double quote; the quote, the backslash and the
  characters that are not printable are escaped.
\<close>

definition repr_char :: "char \<Rightarrow> char \<Rightarrow> string" where
  "repr_char q c =
     (if c = q \<or> c = CHR 0x5C then [CHR 0x5C, c]
      else if c = CHR 0x09 then [CHR 0x5C, CHR ''t'']
      else if c = CHR 0x0A then [CHR 0x5C, CHR ''n'']
      else if c = CHR 0x0D then [CHR 0x5C, CHR ''r'']
      else if code_point c < 32 \<or> code_point c = 127
              \<or> (128 \<le> code_point c \<and> code_point c \<le> 160) \<or> code_point c = 173 then
        [CHR 0x5C, CHR ''x'', hex_char False (code_point c div 16), hex_char False (code_point c mod 16)]
      else [c])"

definition repr_string :: "string \<Rightarrow> string" where
  "repr_string s =
     (let q = (if CHR 0x27 \<in> set s \<and> CHR 0x22 \<notin> set s then CHR 0x22 else CHR 0x27)
      in q # concat (map (repr_char q) s) @ [q])"

fun repr :: "json \<Rightarrow> string"
  and repr_elems :: "json list \<Rightarrow> string"
  and repr_members :: "(string \<times> json) list \<Rightarrow> string" where
  "repr JNull = ''None''"
| "repr (JBool b) = (if b then ''True'' else ''False'')"
| "repr (JNum n) = str_int n"
| "repr (JStr s) = repr_string s"
| "repr (JArr xs) = ''['' @ repr_elems xs @ '']''"
| "repr (JObj kvs) = ''{'' @ repr_members kvs @ ''}''"
| "repr_elems [] = []"
| "repr_elems [x] = repr x"
| "repr_elems (x # y # ys) = repr x @ '', '' @ repr_elems (y # ys)"
| "repr_members [] = []"
| "repr_members [(k, v)] = repr_string k @ '': '' @ repr v"
| "repr_members ((k, v) # p # ps) = repr_string k @ '': '' @ repr v @ '', '' @ repr_members (p # ps)"

text \<open>
  The reference library. The module \<^verbatim>\<open>requests\<close> exports \<^verbatim>\<open>status_codes\<close> and
  \<^verbatim>\<open>codes\<close> and has no attribute \<^verbatim>\<open>status_code\<close>.
\<close>

definition python :: lib where
  "python =
     \<lparr> json_loads = loads, json_dumps = dumps, quote = py_quote, str_container = repr,
       requests_status_code = False \<rparr>"

section \<open>Sample data\<close>

text \<open>A file system with no file, where every path can be written.\<close>

definition no_files :: world where
  "no_files = \<lparr> files = (\<lambda>p. None), write_denied = (\<lambda>p. False), trace = [] \<rparr>"

definition with_file :: "string \<Rightarrow> string \<Rightarrow> world" where
  "with_file path content = no_files\<lparr>files := (files no_files)(path \<mapsto> Text content)\<rparr>"

text \<open>A server that answers every request with the same status code and body.\<close>

definition answer :: "int \<Rightarrow> json option \<Rightarrow> http" where
  "answer code body = (\<lambda>url. Response code body)"

definition unreachable :: http where
  "unreachable = (\<lambda>url. No_response)"

text \<open>The body \<^verbatim>\<open>{"configurations": {"x": "1"}, "releaseKey": "r2"}\<close>.\<close>

definition body_x1_r2 :: json where
  "body_x1_r2 = JObj [(''configurations'', JObj [(''x'', JStr ''1'')]), (''releaseKey'', JStr ''r2'')]"

text \<open>The body \<^verbatim>\<open>[{"namespaceName": "application", "notificationId": n}]\<close>.\<close>

definition notification :: "int \<Rightarrow> json" where
  "notification n = JArr [JObj [(''namespaceName'', JStr ''application''), (''notificationId'', JNum n)]]"

text \<open>
  A client built with the file name \<open>fn\<close> on a file system without files, after
  \<^verbatim>\<open>connect("http://apollo/", "app")\<close> while the server cannot be reached.
\<close>

definition offline :: "string option \<Rightarrow> client" where
  "offline fn =
     fst (connect python unreachable ''http://apollo/'' ''app'' ''default'' ''application''
            (fresh fn) no_files)"

text \<open>
  A connected client after \<^verbatim>\<open>listen()\<close>: first with both loops about to test
  \<^verbatim>\<open>self.sign\<close>, then with both loops inside their first pass.
\<close>

definition started :: sys where
  "started = step python \<lparr>cl = offline None, wd = no_files, threads = []\<rparr> (Call_listen 30 70)"

definition listening :: sys where
  "listening = run python started [Test 0, Test 1]"

section \<open>Basic facts\<close>

lemma offline_eq:
  "offline fn =
     (fresh fn)\<lparr>namespaceName := Some ''application'',
       config_url := Some ''http://apollo/configs/app/default/application'',
       notification_url :=
         Some ''http://apollo/notifications/v2?appId=app&cluster=default&notifications=''\<rparr>"
  by (simp add: offline_def connect_def update_config_def request_url_def fresh_def
      unreachable_def emit_def strip_slash_def Let_def)

lemma offline_request_url:
  "request_url L (offline fn) = Inr ''http://apollo/configs/app/default/application''"
  by (simp add: offline_eq request_url_def fresh_def)

lemma loads_x1: \<open>loads ''{"x": "1"}'' = Some (JObj [(''x'', JStr ''1'')])\<close>
  by code_simp

lemma loads_not_json: "loads ''not json'' = None"
  by code_simp

lemma loads_array: "loads ''[1, 2]'' = Some (JArr [JNum 1, JNum 2])"
  by code_simp

lemma dumps_x1_r2:
  \<open>dumps (JObj [(''x'', JStr ''1''), (''releaseKey'', JStr ''r2'')]) = ''{"x": "1", "releaseKey": "r2"}''\<close>
  by code_simp

lemma loads_x1_r2:
  \<open>loads ''{"x": "1", "releaseKey": "r2"}'' = Some (JObj [(''x'', JStr ''1''), (''releaseKey'', JStr ''r2'')])\<close>
  by code_simp

lemma python_fields [simp]:
  "json_loads python = loads" "json_dumps python = dumps"
  by (simp_all add: python_def)

lemma with_file_files:
  "files (with_file path content) p = (if p = path then Some (Text content) else None)"
  by (simp add: with_file_def no_files_def)

lemma log_done_python: "log_done python = Inl AttributeError"
  by (simp add: log_done_def python_def)

lemma body_x1_r2_fields:
  "getitem_str body_x1_r2 ''configurations'' = Inr (JObj [(''x'', JStr ''1'')])"
  "getitem_str body_x1_r2 ''releaseKey'' = Inr (JStr ''r2'')"
  by (simp_all add: body_x1_r2_def)

text \<open>
  A response other than 304 that carries a dictionary under \<^verbatim>\<open>configurations\<close> and some
  value under \<^verbatim>\<open>releaseKey\<close> replaces the map, with the release key stored in it.
\<close>

lemma update_config_applied:
  assumes "request_url L c = Inr url" and "h url = Response code (Some j)" and "code \<noteq> 304"
    and "getitem_str j ''configurations'' = Inr (JObj m)"
    and "getitem_str j ''releaseKey'' = Inr k"
  shows "fst (snd (update_config L h c w))
           = c\<lparr>configurations := JObj (AList.update ''releaseKey'' k m), releaseKey := k\<rparr>"
  using assms
  by (simp add: update_config_def Let_def split: option.splits sum.splits)

text \<open>The same response, with a file name configured and a path that can be written.\<close>

lemma update_config_written:
  assumes "request_url L c = Inr url" and "h url = Response code (Some j)" and "code \<noteq> 304"
    and "getitem_str j ''configurations'' = Inr (JObj m)"
    and "getitem_str j ''releaseKey'' = Inr k"
    and "checked_name (filename c) = Some path"
    and "\<not> write_denied w path"
  shows "files (snd (snd (update_config L h c w)))
           = (files w)(path \<mapsto> Text (json_dumps L (JObj (AList.update ''releaseKey'' k m))))"
  using assms
  by (simp add: update_config_def Let_def write_file_def emit_def split: option.splits sum.splits)

lemma checked_name_Some: "checked_name fn = Some path \<Longrightarrow> fn = Some path"
  by (cases fn) (auto split: if_splits)

lemma update_x1_r2:
  "AList.update ''releaseKey'' (JStr ''r2'') [(''x'', JStr ''1'')]
     = [(''x'', JStr ''1''), (''releaseKey'', JStr ''r2'')]"
  by simp

text \<open>
  \<^verbatim>\<open>update_config\<close> assigns to \<^verbatim>\<open>self.configurations\<close> and \<^verbatim>\<open>self.releaseKey\<close> only,
  and it is entered once per call.
\<close>

lemma update_config_keeps:
  assumes "update_config L h c w = (r, c', w')"
  shows "sign c' = sign c \<and> notificationId c' = notificationId c \<and> filename c' = filename c
       \<and> namespaceName c' = namespaceName c \<and> config_url c' = config_url c
       \<and> notification_url c' = notification_url c"
  using assms unfolding update_config_def Let_def
  by (auto split: sum.splits option.splits http_result.splits if_splits)

lemma update_config_trace:
  assumes "update_config L h c w = (r, c', w')"
  shows "\<exists>es. trace w' = trace w @ Enter_update_config # es \<and> Enter_update_config \<notin> set es"
  using assms unfolding update_config_def Let_def
  by (auto simp: emit_def write_file_def split: sum.splits option.splits http_result.splits if_splits)

lemma announced_notification: "announced (Response 200 (Some (notification n))) = Some (JNum n)"
  by (simp add: announced_def notification_def)

lemma announced_answer: "announced (answer 200 (Some (notification n)) url) = Some (JNum n)"
  by (simp add: answer_def announced_notification)

text \<open>One pass of the long poll leaves the notification id alone or takes the announced one.\<close>

lemma perceptual_body_notification_id:
  "notificationId (fst (perceptual_update_body L h c w))
     = (case notification_request_url L c of
          Inl e \<Rightarrow> notificationId c
        | Inr url \<Rightarrow> (case announced (h url) of None \<Rightarrow> notificationId c | Some n \<Rightarrow> n))"
proof (cases "notification_request_url L c")
  case (Inl e)
  then show ?thesis by (simp add: perceptual_update_body_def backoff_def)
next
  case (Inr url)
  show ?thesis
  proof (cases "announced (h url)")
    case None
    with Inr show ?thesis
      by (auto simp: perceptual_update_body_def backoff_def announced_def Let_def
          split: http_result.splits option.splits sum.splits if_splits)
  next
    case (Some n)
    obtain r c2 w2 where u:
      "update_config L h (c\<lparr>notificationId := n\<rparr>) (emit (Http_get url) w) = (r, c2, w2)"
      by (cases "update_config L h (c\<lparr>notificationId := n\<rparr>) (emit (Http_get url) w)")
    from update_config_keeps [OF u] have "notificationId c2 = n" by simp
    with Inr Some u show ?thesis
      by (cases r) (auto simp: perceptual_update_body_def backoff_def announced_def Let_def
          split: http_result.splits option.splits sum.splits if_splits)
  qed
qed

lemma perceptual_body_keeps:
  assumes "perceptual_update_body L h c w = (c', w')"
  shows "sign c' = sign c \<and> filename c' = filename c \<and> namespaceName c' = namespaceName c
       \<and> config_url c' = config_url c \<and> notification_url c' = notification_url c"
proof (cases "notification_request_url L c")
  case (Inl e)
  with assms show ?thesis by (simp add: perceptual_update_body_def backoff_def)
next
  case (Inr url)
  show ?thesis
  proof (cases "announced (h url)")
    case None
    with Inr assms show ?thesis
      by (auto simp: perceptual_update_body_def backoff_def announced_def Let_def
          split: http_result.splits option.splits sum.splits if_splits)
  next
    case (Some n)
    obtain r c2 w2 where u:
      "update_config L h (c\<lparr>notificationId := n\<rparr>) (emit (Http_get url) w) = (r, c2, w2)"
      by (cases "update_config L h (c\<lparr>notificationId := n\<rparr>) (emit (Http_get url) w)")
    from update_config_keeps [OF u]
    have "sign c2 = sign c \<and> filename c2 = filename c \<and> namespaceName c2 = namespaceName c
       \<and> config_url c2 = config_url c \<and> notification_url c2 = notification_url c"
      by simp
    with Inr Some u assms show ?thesis
      by (cases r) (auto simp: perceptual_update_body_def backoff_def announced_def Let_def
          split: http_result.splits option.splits sum.splits if_splits)
  qed
qed

lemma offline_notification_url:
  "notification_request_url python (offline fn) =
     Inr ''http://apollo/notifications/v2?appId=app&cluster=default&notifications=%5B%7B%22namespaceName%22%3A%20%22application%22%2C%20%22notificationId%22%3A%20-1%7D%5D''"
proof -
  have "py_quote (CHR ''['' # CHR ''{'' # CHR 0x22 # ''namespaceName'' @ CHR 0x22 # CHR '':'' # CHR '' '' # CHR 0x22 #
          ''application'' @ CHR 0x22 # CHR '','' # CHR '' '' # CHR 0x22 # ''notificationId'' @ CHR 0x22 # CHR '':'' # CHR '' '' #
          str_int (- 1) @ ''}]'')
      = ''%5B%7B%22namespaceName%22%3A%20%22application%22%2C%20%22notificationId%22%3A%20-1%7D%5D''"
    by code_simp
  then show ?thesis
    by (simp add: notification_request_url_def offline_eq fresh_def python_def)
qed

section \<open>The reference library reads back what it writes\<close>

text \<open>Digits.\<close>

lemma below_10: "(d::nat) < 10 \<Longrightarrow> d = 0 \<or> d = 1 \<or> d = 2 \<or> d = 3 \<or> d = 4 \<or> d = 5 \<or> d = 6 \<or> d = 7 \<or> d = 8 \<or> d = 9"
  by arith

lemma below_16: "(d::nat) < 16 \<Longrightarrow> d < 10 \<or> d = 10 \<or> d = 11 \<or> d = 12 \<or> d = 13 \<or> d = 14 \<or> d = 15"
  by arith

lemma digit_val_digit_char: "d < 10 \<Longrightarrow> digit_val (digit_char d) = Some d"
  by (drule below_10) (auto simp: digit_val_def digit_char_def code_point_def)

lemma digit_char_plain:
  "d < 10 \<Longrightarrow> \<not> is_ws (digit_char d) \<and> digit_char d \<notin> set [CHR 0x22, CHR ''{'', CHR ''['', CHR '']'', CHR ''}'', CHR ''n'', CHR ''t'', CHR ''f'', CHR ''-'']"
  by (drule below_10) (auto simp: digit_char_def is_ws_def)

lemma hex_val_hex_char: "d < 16 \<Longrightarrow> hex_val (hex_char False d) = Some d"
  by (drule below_16, elim disjE, drule below_10) (auto simp: hex_val_def hex_char_def code_point_def)

lemma delimited_no_digit: "delimited (c # cs) \<Longrightarrow> digit_val c = None \<and> c \<noteq> CHR ''.'' \<and> c \<noteq> CHR ''e'' \<and> c \<noteq> CHR ''E''"
  by (auto simp: delimited_def digit_val_def code_point_def)

text \<open>An integer printed by \<^verbatim>\<open>str\<close> is read back, when what follows cannot belong to it.\<close>

lemma take_digits_end: "delimited r \<Longrightarrow> take_digits n r = (n, r)"
  by (cases r) (simp_all add: delimited_no_digit)

lemma take_digits_str_nat:
  "take_digits acc (str_nat n @ r) = take_digits (acc * 10 ^ length (str_nat n) + n) r"
proof (induction n arbitrary: acc r rule: str_nat.induct)
  case (1 n)
  show ?case
  proof (cases "n < 10")
    case True
    then show ?thesis
      by (simp add: str_nat.simps [of n] digit_val_digit_char mult.commute)
  next
    case False
    have m: "n mod 10 < 10" by simp
    from False "1.IH" [of acc "digit_char (n mod 10) # r"] show ?thesis
      by (simp add: str_nat.simps [of n] digit_val_digit_char [OF m] algebra_simps)
  qed
qed

lemma str_nat_lead:
  "0 < n \<Longrightarrow> \<exists>d rest. str_nat n = digit_char d # rest \<and> 0 < d \<and> d < 10
                  \<and> (\<forall>r. take_digits d (rest @ r) = take_digits n r)"
proof (induction n rule: str_nat.induct)
  case (1 n)
  show ?case
  proof (cases "n < 10")
    case True
    with "1.prems" show ?thesis
      by (auto simp: str_nat.simps [of n] intro!: exI [of _ n])
  next
    case False
    then have "0 < n div 10" by simp
    with "1.IH" False obtain d rest where
      h: "str_nat (n div 10) = digit_char d # rest" "0 < d" "d < 10"
         "\<And>r. take_digits d (rest @ r) = take_digits (n div 10) r"
      by auto
    have m: "n mod 10 < 10" by simp
    have key: "take_digits d ((rest @ [digit_char (n mod 10)]) @ r) = take_digits n r" for r
      using h(4) [of "digit_char (n mod 10) # r"] by (simp add: digit_val_digit_char [OF m])
    have "str_nat n = digit_char d # (rest @ [digit_char (n mod 10)])"
      using False h(1) by (simp add: str_nat.simps [of n])
    with h(2,3) key show ?thesis
      by blast
  qed
qed

lemma parse_digits_str_nat:
  assumes "delimited r"
  shows "parse_digits (str_nat n @ r) = Some (n, r)"
proof (cases "n = 0")
  case True
  have "str_nat 0 = [digit_char 0]" by (simp add: str_nat.simps [of 0])
  with True assms show ?thesis
    by (cases r) (auto simp: parse_digits_def digit_val_digit_char delimited_no_digit)
next
  case False
  then obtain d rest where
    h: "str_nat n = digit_char d # rest" "0 < d" "d < 10"
       "\<And>r. take_digits d (rest @ r) = take_digits n r"
    using str_nat_lead [of n] by auto
  have td: "take_digits d (rest @ r) = (n, r)"
    using h(4) [of r] assms by (simp add: take_digits_end)
  have "parse_digits (digit_char d # (rest @ r)) = Some (n, r)"
    using td h(2,3) assms
    by (cases r) (simp_all add: parse_digits_def digit_val_digit_char delimited_no_digit)
  with h(1) show ?thesis by simp
qed

lemma str_nat_first: "\<exists>d rest. str_nat n = digit_char d # rest \<and> d < 10"
proof (cases "n = 0")
  case True
  then show ?thesis by (auto simp: str_nat.simps [of 0] intro!: exI [of _ 0])
next
  case False
  then show ?thesis using str_nat_lead [of n] by auto
qed

lemma parse_number_str_int:
  assumes "delimited r"
  shows "parse_number (str_int i @ r) = Some (JNum i, r)"
proof (cases "i < 0")
  case True
  with assms show ?thesis
    by (simp add: parse_number_def str_int_def parse_digits_str_nat)
next
  case False
  obtain d rest where h: "str_nat (nat i) = digit_char d # rest" "d < 10"
    using str_nat_first by blast
  have "digit_char d \<noteq> CHR ''-''"
    using digit_char_plain [OF h(2)] by simp
  moreover have "parse_digits (digit_char d # rest @ r) = Some (nat i, r)"
    using parse_digits_str_nat [OF assms, of "nat i"] h by simp
  ultimately show ?thesis
    using False h by (simp add: parse_number_def str_int_def)
qed

text \<open>A string is read back: every character, escaped or not, comes back as itself.\<close>

lemma parse_str_dumps_char: "parse_str acc (dumps_char c @ t) = parse_str (c # acc) t"
proof -
  have less: "code_point c < 256"
    by (simp add: code_point_def)
  then have lt: "code_point c div 16 < 16"
    by arith
  have md: "code_point c mod 16 < 16" by simp
  have same: "char_of (code_point c) = c"
    by (simp add: code_point_def)
  have val: "16 * (code_point c div 16) + code_point c mod 16 = code_point c"
    by simp
  have h0: "hex_val (CHR ''0'') = Some 0"
    by (simp add: hex_val_def code_point_def)
  have hex: "hex4 (CHR ''0'') (CHR ''0'') (hex_char False (code_point c div 16))
       (hex_char False (code_point c mod 16)) = Some (code_point c)"
    by (simp add: hex4_def h0 hex_val_hex_char [OF lt] hex_val_hex_char [OF md])
  show ?thesis
    by (simp add: dumps_char_def unescape_def hex same less)
qed

lemma parse_str_dumps:
  "parse_str acc (concat (map dumps_char s) @ CHR 0x22 # r) = Some (rev acc @ s, r)"
proof (induction s arbitrary: acc)
  case Nil
  show ?case by simp
next
  case (Cons c s)
  show ?case
    using Cons [of "c # acc"] by (simp add: parse_str_dumps_char del: parse_str.simps)
qed

text \<open>The space that \<^verbatim>\<open>json.dumps\<close> puts after a comma and a colon is skipped.\<close>

lemma parse_value_space: "parse_value n (CHR '' '' # s) = parse_value n s"
  by (cases n) (simp_all add: is_ws_def)

lemma parse_elems_space: "parse_elems n acc (CHR '' '' # s) = parse_elems n acc s"
  by (cases n) (simp_all add: parse_value_space)

lemma parse_members_space: "parse_members n acc (CHR '' '' # s) = parse_members n acc s"
  by (cases n) (simp_all add: is_ws_def)

text \<open>A key that is new goes to the end of the dictionary.\<close>

lemma update_new: "k \<notin> fst ` set acc \<Longrightarrow> AList.update k v acc = acc @ [(k, v)]"
  by (induction acc) auto

text \<open>The text of a value starts with a character that opens a value.\<close>

lemma dumps_first: "\<exists>c rest. dumps v = c # rest \<and> opens_value c"
proof (cases v)
  case (JNum i)
  obtain d rest where h: "str_nat (nat \<bar>i\<bar>) = digit_char d # rest" "d < 10"
    using str_nat_first by blast
  show ?thesis
  proof (cases "i < 0")
    case True
    with JNum show ?thesis by (simp add: str_int_def opens_value_def is_ws_def)
  next
    case False
    with JNum h digit_char_plain [OF h(2)] show ?thesis
      by (simp add: str_int_def opens_value_def)
  qed
qed (auto simp: opens_value_def is_ws_def dumps_string_def)

lemma parse_value_scalars:
  "parse_value (Suc n) (''null'' @ r) = Some (JNull, r)"
  "parse_value (Suc n) (''true'' @ r) = Some (JBool True, r)"
  "parse_value (Suc n) (''false'' @ r) = Some (JBool False, r)"
  "parse_value (Suc n) (dumps_string s @ r) = Some (JStr s, r)"
  by (simp_all add: is_ws_def literal_def dumps_string_def parse_str_dumps del: parse_str.simps)

lemma parse_value_number:
  assumes "delimited r"
  shows "parse_value (Suc n) (str_int i @ r) = Some (JNum i, r)"
proof -
  obtain c rest where h: "dumps (JNum i) = c # rest" "opens_value c"
    using dumps_first by blast
  then have s: "str_int i = c # rest" by simp
  have first: "c = CHR ''-'' \<or> (\<exists>d < 10. c = digit_char d)"
  proof (cases "i < 0")
    case True
    with s show ?thesis by (simp add: str_int_def)
  next
    case False
    obtain d rest' where "str_nat (nat i) = digit_char d # rest'" "d < 10"
      using str_nat_first by blast
    with False s show ?thesis by (auto simp: str_int_def)
  qed
  then have plain: "c \<notin> set [CHR 0x22, CHR ''{'', CHR ''['', CHR ''n'', CHR ''t'', CHR ''f'']"
    using digit_char_plain by auto
  have "parse_value (Suc n) (c # rest @ r) = parse_number (c # rest @ r)"
    using h(2) plain by (simp add: opens_value_def)
  with parse_number_str_int [OF assms, of i] s show ?thesis
    by simp
qed

text \<open>
  The text of a proper value, of the elements of an array and of the members of an object is
  read back, with enough calls allowed: as many as the text has characters.
\<close>

lemma round_trip_all:
  "(proper v \<longrightarrow> (\<forall>n r. length (dumps v) \<le> n \<longrightarrow> delimited r \<longrightarrow>
       parse_value n (dumps v @ r) = Some (v, r)))"
  "(proper_elems xs \<longrightarrow> xs \<noteq> [] \<longrightarrow> (\<forall>n acc r. Suc (length (dumps_elems xs)) \<le> n \<longrightarrow>
       parse_elems n acc (dumps_elems xs @ CHR '']'' # r) = Some (JArr (acc @ xs), r)))"
  "(proper_members kvs \<longrightarrow> kvs \<noteq> [] \<longrightarrow> (\<forall>n acc r. Suc (length (dumps_members kvs)) \<le> n \<longrightarrow>
       distinct (map fst (acc @ kvs)) \<longrightarrow>
       parse_members n acc (dumps_members kvs @ CHR ''}'' # r) = Some (JObj (acc @ kvs), r)))"
proof (induction v and xs and kvs rule: dumps_dumps_elems_dumps_members.induct)
  case 1
  show ?case
  proof (intro impI allI)
    fix n r assume "length (dumps JNull) \<le> n"
    then obtain m where "n = Suc m" by (cases n) auto
    then show "parse_value n (dumps JNull @ r) = Some (JNull, r)"
      using parse_value_scalars(1) [of m r] by simp
  qed
next
  case (2 b)
  show ?case
  proof (intro impI allI)
    fix n r assume "length (dumps (JBool b)) \<le> n"
    then obtain m where "n = Suc m" by (cases n) (auto split: if_splits)
    then show "parse_value n (dumps (JBool b) @ r) = Some (JBool b, r)"
      using parse_value_scalars(2,3) [of m r] by simp
  qed
next
  case (3 i)
  show ?case
  proof (intro impI allI)
    fix n r assume len: "length (dumps (JNum i)) \<le> n" and d: "delimited r"
    obtain c rest where "dumps (JNum i) = c # rest" using dumps_first by blast
    with len obtain m where "n = Suc m" by (cases n) auto
    then show "parse_value n (dumps (JNum i) @ r) = Some (JNum i, r)"
      using parse_value_number [OF d, of m i] by simp
  qed
next
  case (4 s)
  show ?case
  proof (intro impI allI)
    fix n r assume "length (dumps (JStr s)) \<le> n"
    then obtain m where "n = Suc m" by (cases n) (auto simp: dumps_string_def)
    then show "parse_value n (dumps (JStr s) @ r) = Some (JStr s, r)"
      using parse_value_scalars(4) [of m s r] by simp
  qed
next
  case (5 xs)
  show ?case
  proof (intro impI allI)
    fix n r assume p: "proper (JArr xs)" and len: "length (dumps (JArr xs)) \<le> n"
    then obtain m where n: "n = Suc m" and m: "Suc (length (dumps_elems xs)) \<le> m"
      by (cases n) auto
    show "parse_value n (dumps (JArr xs) @ r) = Some (JArr xs, r)"
    proof (cases xs)
      case Nil
      then show ?thesis by (simp add: n is_ws_def)
    next
      case (Cons x ys)
      obtain c rest where c: "dumps x = c # rest" "opens_value c"
        using dumps_first by blast
      then obtain rest' where e: "dumps_elems xs = c # rest'"
        using Cons by (cases ys) auto
      from 5 p Cons m
      have "parse_elems m [] (dumps_elems xs @ CHR '']'' # r) = Some (JArr ([] @ xs), r)"
        by auto
      with e c(2) show ?thesis
        by (simp add: n is_ws_def opens_value_def)
    qed
  qed
next
  case (6 kvs)
  show ?case
  proof (intro impI allI)
    fix n r assume p: "proper (JObj kvs)" and len: "length (dumps (JObj kvs)) \<le> n"
    then obtain m where n: "n = Suc m" and m: "Suc (length (dumps_members kvs)) \<le> m"
      by (cases n) auto
    show "parse_value n (dumps (JObj kvs) @ r) = Some (JObj kvs, r)"
    proof (cases kvs)
      case Nil
      then show ?thesis by (simp add: n is_ws_def)
    next
      case (Cons kv ys)
      obtain rest' where e: "dumps_members kvs = CHR 0x22 # rest'"
        using Cons by (cases kv; cases ys) (auto simp: dumps_string_def)
      from 6 p Cons m
      have "parse_members m [] (dumps_members kvs @ CHR ''}'' # r) = Some (JObj ([] @ kvs), r)"
        by auto
      with e show ?thesis
        by (simp add: n is_ws_def)
    qed
  qed
next
  case 7
  show ?case by simp
next
  case (8 x)
  show ?case
  proof (intro impI allI)
    fix n acc r
    assume p: "proper_elems [x]" and len: "Suc (length (dumps_elems [x])) \<le> n"
    then obtain m where n: "n = Suc m" and m: "length (dumps x) \<le> m"
      by (cases n) auto
    have d: "delimited (CHR '']'' # r)" by (simp add: delimited_def)
    from 8 p m d have "parse_value m (dumps x @ CHR '']'' # r) = Some (x, CHR '']'' # r)"
      by simp
    then show "parse_elems n acc (dumps_elems [x] @ CHR '']'' # r) = Some (JArr (acc @ [x]), r)"
      by (simp add: n is_ws_def)
  qed
next
  case (9 x y ys)
  show ?case
  proof (intro impI allI)
    fix n acc r
    assume p: "proper_elems (x # y # ys)" and len: "Suc (length (dumps_elems (x # y # ys))) \<le> n"
    then obtain m where n: "n = Suc m" and m1: "length (dumps x) \<le> m"
      and m2: "Suc (length (dumps_elems (y # ys))) \<le> m"
      by (cases n) auto
    let ?rest = "CHR '','' # CHR '' '' # dumps_elems (y # ys) @ CHR '']'' # r"
    have d: "delimited ?rest" by (simp add: delimited_def)
    from 9(1) p m1 d have v: "parse_value m (dumps x @ ?rest) = Some (x, ?rest)"
      by simp
    from 9(2) p m2
    have "parse_elems m (acc @ [x]) (dumps_elems (y # ys) @ CHR '']'' # r)
        = Some (JArr ((acc @ [x]) @ y # ys), r)"
      by simp
    with v show "parse_elems n acc (dumps_elems (x # y # ys) @ CHR '']'' # r)
        = Some (JArr (acc @ x # y # ys), r)"
      by (simp add: n is_ws_def parse_elems_space)
  qed
next
  case 10
  show ?case by simp
next
  case (11 k v)
  show ?case
  proof (intro impI allI)
    fix n acc r
    assume p: "proper_members [(k, v)]" and len: "Suc (length (dumps_members [(k, v)])) \<le> n"
      and dist: "distinct (map fst (acc @ [(k, v)]))"
    then obtain m where n: "n = Suc m" and m: "length (dumps v) \<le> m"
      by (cases n) auto
    have d: "delimited (CHR ''}'' # r)" by (simp add: delimited_def)
    from 11 p m d have pv: "parse_value m (dumps v @ CHR ''}'' # r) = Some (v, CHR ''}'' # r)"
      by simp
    have new: "AList.update k v acc = acc @ [(k, v)]"
      using dist by (intro update_new) auto
    show "parse_members n acc (dumps_members [(k, v)] @ CHR ''}'' # r) = Some (JObj (acc @ [(k, v)]), r)"
      using pv new
      by (simp add: n is_ws_def dumps_string_def parse_str_dumps parse_value_space
          del: parse_str.simps)
  qed
next
  case (12 k v p ps)
  show ?case
  proof (intro impI allI)
    fix n acc r
    assume pr: "proper_members ((k, v) # p # ps)"
      and len: "Suc (length (dumps_members ((k, v) # p # ps))) \<le> n"
      and dist: "distinct (map fst (acc @ (k, v) # p # ps))"
    then obtain m where n: "n = Suc m" and m1: "length (dumps v) \<le> m"
      and m2: "Suc (length (dumps_members (p # ps))) \<le> m"
      by (cases n) auto
    let ?rest = "CHR '','' # CHR '' '' # dumps_members (p # ps) @ CHR ''}'' # r"
    have d: "delimited ?rest" by (simp add: delimited_def)
    from 12(1) pr m1 d have pv: "parse_value m (dumps v @ ?rest) = Some (v, ?rest)"
      by simp
    have new: "AList.update k v acc = acc @ [(k, v)]"
      using dist by (intro update_new) auto
    have dist': "distinct (map fst ((acc @ [(k, v)]) @ p # ps))"
      using dist by simp
    have pm: "proper_members (p # ps)" and ne: "p # ps \<noteq> []"
      using pr by simp_all
    from 12(2) pm ne m2 dist'
    have "parse_members m (acc @ [(k, v)]) (dumps_members (p # ps) @ CHR ''}'' # r)
        = Some (JObj ((acc @ [(k, v)]) @ p # ps), r)"
      by blast
    with pv new
    show "parse_members n acc (dumps_members ((k, v) # p # ps) @ CHR ''}'' # r)
        = Some (JObj (acc @ (k, v) # p # ps), r)"
      by (simp add: n is_ws_def dumps_string_def parse_str_dumps parse_value_space
          parse_members_space del: parse_str.simps)
  qed
qed

text \<open>\<^verbatim>\<open>json.loads(json.dumps(v))\<close> is \<open>v\<close> for every proper value.\<close>

lemma loads_dumps:
  assumes "proper v"
  shows "loads (dumps v) = Some v"
proof -
  have "delimited []" by (simp add: delimited_def)
  with round_trip_all(1) [of v] assms
  have "parse_value (Suc (length (dumps v))) (dumps v @ []) = Some (v, [])"
    by (metis le_SucI order_refl)
  then show ?thesis
    by (simp add: loads_def del: parse_value.simps)
qed

text \<open>The parts of a proper value are proper, and storing a proper value keeps one proper.\<close>

lemma proper_lookup:
  "proper_members kvs \<Longrightarrow> map_of kvs key = Some v \<Longrightarrow> proper v"
  by (induction kvs) (auto split: if_splits)

lemma proper_getitem:
  assumes "proper j" and "getitem_str j key = Inr v"
  shows "proper v"
  using assms by (cases j) (auto split: option.splits dest: proper_lookup)

lemma proper_members_update:
  "proper_members kvs \<Longrightarrow> proper v \<Longrightarrow> proper_members (AList.update key v kvs)"
  by (induction kvs) auto

lemma proper_update:
  assumes "proper (JObj m)" and "proper k"
  shows "proper (JObj (AList.update key k m))"
  using assms by (simp add: distinct_update proper_members_update)

lemma proper_body_x1_r2: "proper body_x1_r2"
  by (simp add: body_x1_r2_def)

section \<open>A fetch that is answered 304\<close>

text \<open>
  Claim C2. Whatever the state of the client, when \<^verbatim>\<open>update_config\<close> receives a response
  with status 304, the client is the same after the call as before it, so the configuration
  map and the release key are the same; no file has changed, and the only effects of the
  call are its own start and the request, so nothing was written.
\<close>

theorem not_modified_leaves_cache_and_file:
  assumes "request_url L c = Inr url"
    and "h url = Response 304 body"
    and "update_config L h c w = (r, c', w')"
  shows "c' = c \<and> files w' = files w \<and> trace w' = trace w @ [Enter_update_config, Http_get url]"
  using assms by (auto simp: update_config_def Let_def emit_def)

theorem not_modified_leaves_cache_and_file_witness:
  "request_url python (offline (Some ''apollo.json''))
     = Inr ''http://apollo/configs/app/default/application''
   \<and> answer 304 None ''http://apollo/configs/app/default/application'' = Response 304 None
   \<and> fst (snd (update_config python (answer 304 None) (offline (Some ''apollo.json'')) no_files))
       = offline (Some ''apollo.json'')
   \<and> trace (snd (snd (update_config python (answer 304 None) (offline (Some ''apollo.json'')) no_files)))
       = [Enter_update_config, Http_get ''http://apollo/configs/app/default/application'']"
proof -
  obtain r c' w' where run:
    "update_config python (answer 304 None) (offline (Some ''apollo.json'')) no_files = (r, c', w')"
    by (cases "update_config python (answer 304 None) (offline (Some ''apollo.json'')) no_files")
  have url: "request_url python (offline (Some ''apollo.json''))
      = Inr ''http://apollo/configs/app/default/application''"
    by (rule offline_request_url)
  have resp: "answer 304 None ''http://apollo/configs/app/default/application'' = Response 304 None"
    by (simp add: answer_def)
  from not_modified_leaves_cache_and_file [OF url resp run] run url resp
  show ?thesis by (simp add: no_files_def)
qed

section \<open>A fetch that is answered with another status\<close>




section \<open>A fetch that is answered 200\<close>

text \<open>
  Claim C3. When \<^verbatim>\<open>update_config\<close> receives a response with status 200 and the body
  \<^verbatim>\<open>{"configurations": {"x": "1"}, "releaseKey": "r2"}\<close>, a following \<^verbatim>\<open>get("x")\<close>
  returns \<^verbatim>\<open>"1"\<close> and the next request goes to the config URL followed by
  \<^verbatim>\<open>?releaseKey=r2\<close>. In general the requested URL is the config URL, followed by
  \<^verbatim>\<open>?releaseKey=\<close> and the key exactly when a release key is held, that is when
  \<^verbatim>\<open>self.releaseKey\<close> is true; a client built without a snapshot holds none, so its first
  request goes to the bare config URL.
\<close>

theorem fetch_200_get_and_next_url:
  assumes "config_url c = Some base"
    and "request_url L c = Inr url"
    and "h url = Response 200 (Some body_x1_r2)"
    and "update_config L h c w = (r, c', w')"
  shows "get c' ''x'' = Inr (JStr ''1'')
       \<and> request_url L c' = Inr (base @ ''?releaseKey=r2'')
       \<and> (\<forall>d. config_url d = Some base \<longrightarrow>
             request_url L d = Inr (if truthy (releaseKey d)
                                   then base @ ''?releaseKey='' @ py_str L (releaseKey d) else base)
             \<and> ((\<exists>s. request_url L d = Inr (base @ ''?releaseKey='' @ s)) \<longleftrightarrow> truthy (releaseKey d)))
       \<and> request_url L ((fresh fn)\<lparr>config_url := Some base\<rparr>) = Inr base"
proof -
  have "fst (snd (update_config L h c w))
      = c\<lparr>configurations := JObj (AList.update ''releaseKey'' (JStr ''r2'') [(''x'', JStr ''1'')]),
           releaseKey := JStr ''r2''\<rparr>"
    using assms(2,3) body_x1_r2_fields by (intro update_config_applied) auto
  with assms(4)
  have c': "c' = c\<lparr>configurations := JObj [(''x'', JStr ''1''), (''releaseKey'', JStr ''r2'')],
                   releaseKey := JStr ''r2''\<rparr>"
    by simp
  have 1: "get c' ''x'' = Inr (JStr ''1'')"
    by (simp add: c' get_def)
  have 2: "request_url L c' = Inr (base @ ''?releaseKey=r2'')"
    using assms(1) by (simp add: c' request_url_def)
  have 3: "request_url L d = Inr (if truthy (releaseKey d)
                                   then base @ ''?releaseKey='' @ py_str L (releaseKey d) else base)
      \<and> ((\<exists>s. request_url L d = Inr (base @ ''?releaseKey='' @ s)) \<longleftrightarrow> truthy (releaseKey d))"
    if "config_url d = Some base" for d
    using that by (auto simp: request_url_def)
  have 4: "request_url L ((fresh fn)\<lparr>config_url := Some base\<rparr>) = Inr base"
    by (simp add: request_url_def fresh_def)
  from 1 2 3 4 show ?thesis by blast
qed

theorem fetch_200_get_and_next_url_witness:
  "config_url (offline None) = Some ''http://apollo/configs/app/default/application''
   \<and> request_url python (offline None) = Inr ''http://apollo/configs/app/default/application''
   \<and> answer 200 (Some body_x1_r2) ''http://apollo/configs/app/default/application''
        = Response 200 (Some body_x1_r2)
   \<and> get (fst (snd (update_config python (answer 200 (Some body_x1_r2)) (offline None) no_files))) ''x''
        = Inr (JStr ''1'')
   \<and> request_url python
        (fst (snd (update_config python (answer 200 (Some body_x1_r2)) (offline None) no_files)))
        = Inr ''http://apollo/configs/app/default/application?releaseKey=r2''"
proof -
  let ?url = "''http://apollo/configs/app/default/application''"
  have base: "config_url (offline None) = Some ?url"
    by (simp add: offline_eq fresh_def)
  have url: "request_url python (offline None) = Inr ?url"
    by (rule offline_request_url)
  have resp: "answer 200 (Some body_x1_r2) ?url = Response 200 (Some body_x1_r2)"
    by (simp add: answer_def)
  obtain r c' w' where run:
    "update_config python (answer 200 (Some body_x1_r2)) (offline None) no_files = (r, c', w')"
    by (cases "update_config python (answer 200 (Some body_x1_r2)) (offline None) no_files")
  from fetch_200_get_and_next_url [OF base url resp run] base url resp run
  show ?thesis by simp
qed

section \<open>The release key among the configuration keys\<close>

text \<open>
  Claim C4 as stated does not hold: \<^verbatim>\<open>update_config\<close> stores the release key in the map
  under the key \<^verbatim>\<open>releaseKey\<close>. After the response
  \<^verbatim>\<open>{"configurations": {"x": "1"}, "releaseKey": "r2"}\<close>, whose configurations have no
  such entry, \<^verbatim>\<open>get("releaseKey")\<close> returns the release key held.
\<close>

theorem get_returns_release_key:
  "get (fst (snd (update_config python (answer 200 (Some body_x1_r2)) (offline None) no_files)))
        ''releaseKey'' = Inr (JStr ''r2'')
   \<and> releaseKey (fst (snd (update_config python (answer 200 (Some body_x1_r2)) (offline None) no_files)))
        = JStr ''r2''
   \<and> getitem_str body_x1_r2 ''configurations'' = Inr (JObj [(''x'', JStr ''1'')])
   \<and> dict_get (JObj [(''x'', JStr ''1'')]) ''releaseKey'' = Inr JNull"
  by (simp add: update_config_def request_url_def answer_def body_x1_r2_def Let_def
      log_done_python emit_def no_files_def offline_eq fresh_def get_def)

text \<open>
  Claim C4, amended. After a fetch that applies a response with the configurations \<open>m\<close> and
  the release key \<open>k\<close>, \<^verbatim>\<open>get(key)\<close> returns for every key other than
  \<^verbatim>\<open>"releaseKey"\<close> what \<open>m\<close> has for it (\<^verbatim>\<open>None\<close> when \<open>m\<close> has nothing), and
  \<^verbatim>\<open>get("releaseKey")\<close> returns \<open>k\<close>, the release key held.
\<close>

theorem get_after_applied_fetch:
  assumes "request_url L c = Inr url"
    and "h url = Response code (Some j)"
    and "code \<noteq> 304"
    and "getitem_str j ''configurations'' = Inr (JObj m)"
    and "getitem_str j ''releaseKey'' = Inr k"
    and "update_config L h c w = (r, c', w')"
  shows "get c' key = (if key = ''releaseKey'' then Inr k else dict_get (JObj m) key)
       \<and> releaseKey c' = k"
proof -
  have "fst (snd (update_config L h c w))
      = c\<lparr>configurations := JObj (AList.update ''releaseKey'' k m), releaseKey := k\<rparr>"
    using assms(1-5) by (rule update_config_applied)
  with assms(6)
  have c': "c' = c\<lparr>configurations := JObj (AList.update ''releaseKey'' k m), releaseKey := k\<rparr>"
    by simp
  show ?thesis
    by (simp add: c' get_def update_conv')
qed

theorem get_after_applied_fetch_witness:
  "request_url python (offline None) = Inr ''http://apollo/configs/app/default/application''
   \<and> answer 200 (Some body_x1_r2) ''http://apollo/configs/app/default/application''
        = Response 200 (Some body_x1_r2)
   \<and> (200::int) \<noteq> 304
   \<and> getitem_str body_x1_r2 ''configurations'' = Inr (JObj [(''x'', JStr ''1'')])
   \<and> getitem_str body_x1_r2 ''releaseKey'' = Inr (JStr ''r2'')
   \<and> get (fst (snd (update_config python (answer 200 (Some body_x1_r2)) (offline None) no_files))) ''y''
        = Inr JNull
   \<and> get (fst (snd (update_config python (answer 200 (Some body_x1_r2)) (offline None) no_files))) ''x''
        = Inr (JStr ''1'')"
proof -
  let ?url = "''http://apollo/configs/app/default/application''"
  have url: "request_url python (offline None) = Inr ?url"
    by (rule offline_request_url)
  have resp: "answer 200 (Some body_x1_r2) ?url = Response 200 (Some body_x1_r2)"
    by (simp add: answer_def)
  have ne: "(200::int) \<noteq> 304" by simp
  obtain r c' w' where run:
    "update_config python (answer 200 (Some body_x1_r2)) (offline None) no_files = (r, c', w')"
    by (cases "update_config python (answer 200 (Some body_x1_r2)) (offline None) no_files")
  from get_after_applied_fetch [OF url resp ne body_x1_r2_fields run, of "''y''"]
    get_after_applied_fetch [OF url resp ne body_x1_r2_fields run, of "''x''"]
    url resp ne body_x1_r2_fields run
  show ?thesis by simp
qed

section \<open>Construction from a snapshot file\<close>

text \<open>
  Claim C5 as stated does not hold: \<^verbatim>\<open>__init__\<close> assigns the decoded file to
  \<^verbatim>\<open>self.configurations\<close> before it looks for the release key. A file with the text
  \<^verbatim>\<open>{"x": "1"}\<close>, which lacks the release key, leaves a map that is not empty, and a
  file with the text \<^verbatim>\<open>[1, 2]\<close> leaves a list in the place of the map.
\<close>

theorem snapshot_without_release_key_is_kept:
  \<open>init python (with_file ''apollo.json'' ''{"x": "1"}'') (Some ''apollo.json'')
     = Inr ((fresh (Some ''apollo.json''))\<lparr>configurations := JObj [(''x'', JStr ''1'')]\<rparr>)
   \<and> init python (with_file ''apollo.json'' ''[1, 2]'') (Some ''apollo.json'')
     = Inr ((fresh (Some ''apollo.json''))\<lparr>configurations := JArr [JNum 1, JNum 2]\<rparr>)\<close>
  by (simp add: init_def with_file_files loads_x1 loads_array)

text \<open>
  Claim C5, amended. A client that is just built has the empty map and no release key. With
  no file name, or no file under the name, construction succeeds with that client. For every
  file that can be read as text construction succeeds; when the text is not JSON the client
  has the empty map and no release key; when the text is JSON without a release key (an object
  lacking the key, or not an object), no release key is held and the store is the decoded
  value.
\<close>

theorem init_tolerant:
  "configurations (fresh fn) = JObj [] \<and> releaseKey (fresh fn) = JNull
   \<and> (checked_name fn = None \<or> (\<exists>path. checked_name fn = Some path \<and> files w path = None)
         \<longrightarrow> init L w fn = Inr (fresh fn))
   \<and> (\<forall>path r. checked_name fn = Some path \<and> files w path = Some (Text r) \<longrightarrow>
         (\<exists>c. init L w fn = Inr c)
         \<and> (json_loads L r = None \<longrightarrow> init L w fn = Inr (fresh fn))
         \<and> (\<forall>v e. json_loads L r = Some v \<and> getitem_str v ''releaseKey'' = Inl e \<longrightarrow>
               init L w fn = Inr ((fresh fn)\<lparr>configurations := v\<rparr>)
               \<and> releaseKey ((fresh fn)\<lparr>configurations := v\<rparr>) = JNull))"
  by (auto simp: init_def fresh_def split: option.splits sum.splits)

theorem init_tolerant_witness:
  \<open>checked_name None = None
   \<and> init python no_files None = Inr (fresh None)
   \<and> checked_name (Some ''apollo.json'') = Some ''apollo.json''
   \<and> files no_files ''apollo.json'' = None
   \<and> init python no_files (Some ''apollo.json'') = Inr (fresh (Some ''apollo.json''))
   \<and> files (with_file ''apollo.json'' ''not json'') ''apollo.json'' = Some (Text ''not json'')
   \<and> json_loads python ''not json'' = None
   \<and> init python (with_file ''apollo.json'' ''not json'') (Some ''apollo.json'')
        = Inr (fresh (Some ''apollo.json''))
   \<and> files (with_file ''apollo.json'' ''[1, 2]'') ''apollo.json'' = Some (Text ''[1, 2]'')
   \<and> json_loads python ''[1, 2]'' = Some (JArr [JNum 1, JNum 2])
   \<and> getitem_str (JArr [JNum 1, JNum 2]) ''releaseKey'' = Inl TypeError
   \<and> init python (with_file ''apollo.json'' ''[1, 2]'') (Some ''apollo.json'')
        = Inr ((fresh (Some ''apollo.json''))\<lparr>configurations := JArr [JNum 1, JNum 2]\<rparr>)\<close>
proof -
  let ?fn = "Some ''apollo.json''"
  have n1: "checked_name None = None" and n2: "checked_name ?fn = Some ''apollo.json''"
    by simp_all
  have f0: "files no_files ''apollo.json'' = None"
    by (simp add: no_files_def)
  have f1: "files (with_file ''apollo.json'' ''not json'') ''apollo.json'' = Some (Text ''not json'')"
    and f2: "files (with_file ''apollo.json'' ''[1, 2]'') ''apollo.json'' = Some (Text ''[1, 2]'')"
    by (simp_all add: with_file_files)
  have l1: "json_loads python ''not json'' = None"
    and l2: "json_loads python ''[1, 2]'' = Some (JArr [JNum 1, JNum 2])"
    by (simp_all add: loads_not_json loads_array)
  have g: "getitem_str (JArr [JNum 1, JNum 2]) ''releaseKey'' = Inl TypeError"
    by simp
  from init_tolerant [of None no_files python]
    init_tolerant [of ?fn no_files python]
    init_tolerant [of ?fn "with_file ''apollo.json'' ''not json''" python]
    init_tolerant [of ?fn "with_file ''apollo.json'' ''[1, 2]''" python]
    n1 n2 f0 f1 f2 l1 l2 g
  show ?thesis by simp
qed

text \<open>
  Claim C10. When the file holds JSON that is not an object, construction succeeds, the
  store of the client is that value, and \<^verbatim>\<open>get\<close> raises for every key.
\<close>

theorem non_object_snapshot_breaks_get:
  assumes "checked_name fn = Some path"
    and "files w path = Some (Text r)"
    and "json_loads L r = Some v"
    and "\<not> is_dict v"
  shows "\<exists>c. init L w fn = Inr c \<and> configurations c = v \<and> (\<forall>key. get c key = Inl AttributeError)"
  using assms by (cases v) (simp_all add: init_def get_def)

theorem non_object_snapshot_breaks_get_witness:
  \<open>checked_name (Some ''apollo.json'') = Some ''apollo.json''
   \<and> files (with_file ''apollo.json'' ''"abc"'') ''apollo.json'' = Some (Text ''"abc"'')
   \<and> json_loads python ''"abc"'' = Some (JStr ''abc'')
   \<and> \<not> is_dict (JStr ''abc'')
   \<and> (\<exists>c. init python (with_file ''apollo.json'' ''"abc"'') (Some ''apollo.json'') = Inr c
          \<and> configurations c = JStr ''abc'' \<and> (\<forall>key. get c key = Inl AttributeError))\<close>
proof -
  have n: "checked_name (Some ''apollo.json'') = Some ''apollo.json''"
    by simp
  have f: \<open>files (with_file ''apollo.json'' ''"abc"'') ''apollo.json'' = Some (Text ''"abc"'')\<close>
    by (simp add: with_file_files)
  have "loads [CHR 0x22, CHR ''a'', CHR ''b'', CHR ''c'', CHR 0x22] = Some (JStr ''abc'')"
    by code_simp
  then have l: \<open>json_loads python ''"abc"'' = Some (JStr ''abc'')\<close>
    by simp
  have d: "\<not> is_dict (JStr ''abc'')"
    by simp
  from non_object_snapshot_breaks_get [OF n f l d] n f l d
  show ?thesis by blast
qed

section \<open>Writing the snapshot and reading it back\<close>

text \<open>
  Claim C6 as stated does not hold: the snapshot is the map with the release key stored in it,
  and \<^verbatim>\<open>__init__\<close> keeps everything it decodes. After a fetch that applies the
  configurations \<^verbatim>\<open>{"x": "1"}\<close> with the release key \<^verbatim>\<open>"r2"\<close>, the file holds
  \<^verbatim>\<open>{"x": "1", "releaseKey": "r2"}\<close>, and a client built from it has a map with the
  entry \<^verbatim>\<open>releaseKey\<close>, which the configurations do not have.
\<close>

theorem reloaded_map_has_release_key:
  \<open>files (snd (snd (update_config python (answer 200 (Some body_x1_r2))
                     (offline (Some ''apollo.json'')) no_files))) ''apollo.json''
     = Some (Text ''{"x": "1", "releaseKey": "r2"}'')
   \<and> getitem_str body_x1_r2 ''configurations'' = Inr (JObj [(''x'', JStr ''1'')])
   \<and> init python (snd (snd (update_config python (answer 200 (Some body_x1_r2))
                     (offline (Some ''apollo.json'')) no_files))) (Some ''apollo.json'')
     = Inr ((fresh (Some ''apollo.json''))
              \<lparr>configurations := JObj [(''x'', JStr ''1''), (''releaseKey'', JStr ''r2'')],
               releaseKey := JStr ''r2''\<rparr>)
   \<and> map_of [(''x'', JStr ''1''), (''releaseKey'', JStr ''r2'')] ''releaseKey'' = Some (JStr ''r2'')
   \<and> map_of [(''x'', JStr ''1'')] ''releaseKey'' = None\<close>
proof -
  let ?w = "snd (snd (update_config python (answer 200 (Some body_x1_r2))
                     (offline (Some ''apollo.json'')) no_files))"
  have url: "request_url python (offline (Some ''apollo.json''))
      = Inr ''http://apollo/configs/app/default/application''"
    by (rule offline_request_url)
  have "files ?w = (files no_files)(''apollo.json'' \<mapsto>
      Text (json_dumps python (JObj (AList.update ''releaseKey'' (JStr ''r2'') [(''x'', JStr ''1'')]))))"
    by (rule update_config_written [OF url _ _ body_x1_r2_fields, where code = 200])
      (simp_all add: answer_def offline_eq fresh_def no_files_def)
  then have f: \<open>files ?w ''apollo.json'' = Some (Text ''{"x": "1", "releaseKey": "r2"}'')\<close>
    by (simp only: update_x1_r2 python_fields dumps_x1_r2 fun_upd_same)
  then have "init python ?w (Some ''apollo.json'')
     = Inr ((fresh (Some ''apollo.json''))
              \<lparr>configurations := JObj [(''x'', JStr ''1''), (''releaseKey'', JStr ''r2'')],
               releaseKey := JStr ''r2''\<rparr>)"
    by (simp add: init_def loads_x1_r2)
  with f body_x1_r2_fields show ?thesis by simp
qed

text \<open>
  Claim C6, amended. Let a fetch apply a response with the configurations \<open>m\<close> and the
  release key \<open>k\<close> and write the snapshot. Then the file holds the text of \<open>m\<close> with
  \<open>k\<close> under \<^verbatim>\<open>releaseKey\<close>, and a client built from it has the release key \<open>k\<close>
  and, as its map, \<open>m\<close> with the entry \<^verbatim>\<open>releaseKey\<close> set to \<open>k\<close>: the map and the
  release key that the fetching client has in memory. Here \<^verbatim>\<open>json.dumps\<close> is the
  reference one and \<^verbatim>\<open>json.loads\<close> decodes at least what the reference one decodes, to
  the same value; that the text written is read back is proved (\<open>loads_dumps\<close>), not
  assumed. The body is a proper value, as every decoded body is.
\<close>

theorem snapshot_round_trip:
  assumes "json_dumps L = dumps"
    and "\<forall>t v. loads t = Some v \<longrightarrow> json_loads L t = Some v"
    and "proper j"
    and "request_url L c = Inr url"
    and "h url = Response code (Some j)"
    and "code \<noteq> 304"
    and "getitem_str j ''configurations'' = Inr (JObj m)"
    and "getitem_str j ''releaseKey'' = Inr k"
    and "checked_name (filename c) = Some path"
    and "\<not> write_denied w path"
    and "update_config L h c w = (r, c', w')"
  shows "files w' path = Some (Text (dumps (JObj (AList.update ''releaseKey'' k m))))
       \<and> (\<exists>d kvs. init L w' (filename c) = Inr d
             \<and> configurations d = JObj kvs
             \<and> map_of kvs = (map_of m)(''releaseKey'' \<mapsto> k)
             \<and> releaseKey d = k
             \<and> configurations d = configurations c'
             \<and> releaseKey d = releaseKey c')"
proof -
  let ?v = "JObj (AList.update ''releaseKey'' k m)"
  have "proper (JObj m)"
    using assms(3,7) by (rule proper_getitem)
  moreover have "proper k"
    using assms(3,8) by (rule proper_getitem)
  ultimately have "proper ?v"
    by (rule proper_update)
  then have "loads (dumps ?v) = Some ?v"
    by (rule loads_dumps)
  with assms(2) have "json_loads L (dumps ?v) = Some ?v"
    by blast
  then have rt: "json_loads L (json_dumps L ?v) = Some ?v"
    by (simp only: assms(1))
  have "fst (snd (update_config L h c w)) = c\<lparr>configurations := ?v, releaseKey := k\<rparr>"
    using assms(4-8) by (rule update_config_applied)
  with assms(11) have c': "c' = c\<lparr>configurations := ?v, releaseKey := k\<rparr>"
    by simp
  have "files (snd (snd (update_config L h c w))) = (files w)(path \<mapsto> Text (json_dumps L ?v))"
    using assms(4-10) by (rule update_config_written)
  with assms(11) have f: "files w' path = Some (Text (json_dumps L ?v))"
    by simp
  have g: "getitem_str ?v ''releaseKey'' = Inr k"
    by (simp add: update_conv')
  have "init L w' (filename c) = Inr ((fresh (filename c))\<lparr>configurations := ?v, releaseKey := k\<rparr>)"
    using assms(9) f rt g by (simp add: init_def)
  then have "\<exists>d kvs. init L w' (filename c) = Inr d
             \<and> configurations d = JObj kvs
             \<and> map_of kvs = (map_of m)(''releaseKey'' \<mapsto> k)
             \<and> releaseKey d = k
             \<and> configurations d = configurations c'
             \<and> releaseKey d = releaseKey c'"
    by (simp add: c' update_conv')
  with f assms(1) show ?thesis by (simp del: dumps.simps)
qed

theorem snapshot_round_trip_witness:
  \<open>json_dumps python = dumps
   \<and> json_loads python = loads
   \<and> proper body_x1_r2
   \<and> request_url python (offline (Some ''apollo.json''))
       = Inr ''http://apollo/configs/app/default/application''
   \<and> answer 200 (Some body_x1_r2) ''http://apollo/configs/app/default/application''
       = Response 200 (Some body_x1_r2)
   \<and> (200::int) \<noteq> 304
   \<and> getitem_str body_x1_r2 ''configurations'' = Inr (JObj [(''x'', JStr ''1'')])
   \<and> getitem_str body_x1_r2 ''releaseKey'' = Inr (JStr ''r2'')
   \<and> checked_name (filename (offline (Some ''apollo.json''))) = Some ''apollo.json''
   \<and> \<not> write_denied no_files ''apollo.json''
   \<and> (\<exists>d kvs. init python (snd (snd (update_config python (answer 200 (Some body_x1_r2))
                     (offline (Some ''apollo.json'')) no_files))) (Some ''apollo.json'') = Inr d
          \<and> configurations d = JObj kvs
          \<and> map_of kvs = [''x'' \<mapsto> JStr ''1'', ''releaseKey'' \<mapsto> JStr ''r2'']
          \<and> releaseKey d = JStr ''r2'')\<close>
proof -
  let ?c = "offline (Some ''apollo.json'')"
  let ?url = "''http://apollo/configs/app/default/application''"
  have lib: "json_dumps python = dumps" "json_loads python = loads"
    by simp_all
  then have ext: "\<forall>t v. loads t = Some v \<longrightarrow> json_loads python t = Some v"
    by simp
  have url: "request_url python ?c = Inr ?url"
    by (rule offline_request_url)
  have resp: "answer 200 (Some body_x1_r2) ?url = Response 200 (Some body_x1_r2)"
    by (simp add: answer_def)
  have ne: "(200::int) \<noteq> 304" by simp
  have fn: "filename ?c = Some ''apollo.json''"
    by (simp add: offline_eq fresh_def)
  then have cn: "checked_name (filename ?c) = Some ''apollo.json''"
    by simp
  have wd: "\<not> write_denied no_files ''apollo.json''"
    by (simp add: no_files_def)
  obtain r c' w' where run:
    "update_config python (answer 200 (Some body_x1_r2)) ?c no_files = (r, c', w')"
    by (cases "update_config python (answer 200 (Some body_x1_r2)) ?c no_files")
  from snapshot_round_trip [OF lib(1) ext proper_body_x1_r2 url resp ne body_x1_r2_fields cn wd run]
  have "\<exists>d kvs. init python w' (Some ''apollo.json'') = Inr d
          \<and> configurations d = JObj kvs
          \<and> map_of kvs = [''x'' \<mapsto> JStr ''1'', ''releaseKey'' \<mapsto> JStr ''r2'']
          \<and> releaseKey d = JStr ''r2''"
    by (simp add: fn) blast
  with lib proper_body_x1_r2 url resp ne body_x1_r2_fields cn wd run show ?thesis
    by simp
qed

section \<open>The long poll\<close>

text \<open>
  Claim C7. Let one pass of \<^verbatim>\<open>perceptual_update\<close> get as far as its request. When the
  response has status 200 and the body
  \<^verbatim>\<open>[{"namespaceName": "application", "notificationId": 5}]\<close>, the notification id is 5
  after the pass and \<^verbatim>\<open>update_config\<close> was entered exactly once during it. When the
  response has status 304, the pass changes nothing and its only effect is the request: it
  does not sleep before the loop condition is tested again.
\<close>

theorem notification_triggers_one_fetch:
  assumes "notification_request_url L c = Inr url"
    and "perceptual_update_body L h c w = (c', w')"
  shows "(h url = Response 200 (Some (notification 5)) \<longrightarrow>
            notificationId c' = JNum 5
            \<and> take (length (trace w)) (trace w') = trace w
            \<and> count_list (drop (length (trace w)) (trace w')) Enter_update_config = 1)
       \<and> (\<forall>body. h url = Response 304 body \<longrightarrow>
            c' = c \<and> files w' = files w \<and> trace w' = trace w @ [Http_get url])"
proof (intro conjI impI allI)
  assume resp: "h url = Response 200 (Some (notification 5))"
  have "notificationId (fst (perceptual_update_body L h c w)) = JNum 5"
    by (simp add: perceptual_body_notification_id assms(1) resp announced_notification)
  with assms(2) show "notificationId c' = JNum 5" by simp
  obtain r c2 w2 where u:
    "update_config L h (c\<lparr>notificationId := JNum 5\<rparr>) (emit (Http_get url) w) = (r, c2, w2)"
    by (cases "update_config L h (c\<lparr>notificationId := JNum 5\<rparr>) (emit (Http_get url) w)")
  from update_config_trace [OF u] obtain es where
    es: "trace w2 = trace w @ Http_get url # Enter_update_config # es" "Enter_update_config \<notin> set es"
    by (auto simp: emit_def)
  have w': "w' = (case r of Inl e \<Rightarrow> emit (Sleep 60) w2 | Inr x \<Rightarrow> w2)"
    using assms resp u
    by (cases r) (simp_all add: perceptual_update_body_def Let_def notification_def backoff_def)
  then have tr: "trace w' = trace w @ Http_get url # Enter_update_config # es @ (case r of Inl e \<Rightarrow> [Sleep 60] | Inr x \<Rightarrow> [])"
    using es by (cases r) (simp_all add: emit_def)
  show "take (length (trace w)) (trace w') = trace w"
    by (simp add: tr)
  have "count_list es Enter_update_config = 0"
    using es(2) by (simp add: count_list_0_iff)
  then show "count_list (drop (length (trace w)) (trace w')) Enter_update_config = 1"
    by (cases r) (simp_all add: tr)
next
  fix body
  assume resp: "h url = Response 304 body"
  with assms have eq: "c' = c" "w' = emit (Http_get url) w"
    by (simp_all add: perceptual_update_body_def Let_def)
  show "c' = c" by (rule eq)
  show "files w' = files w" by (simp add: eq emit_def)
  show "trace w' = trace w @ [Http_get url]" by (simp add: eq emit_def)
qed

theorem notification_triggers_one_fetch_witness:
  "notification_request_url python (offline None) =
     Inr ''http://apollo/notifications/v2?appId=app&cluster=default&notifications=%5B%7B%22namespaceName%22%3A%20%22application%22%2C%20%22notificationId%22%3A%20-1%7D%5D''
   \<and> answer 200 (Some (notification 5))
        ''http://apollo/notifications/v2?appId=app&cluster=default&notifications=%5B%7B%22namespaceName%22%3A%20%22application%22%2C%20%22notificationId%22%3A%20-1%7D%5D''
       = Response 200 (Some (notification 5))
   \<and> notificationId (fst (perceptual_update_body python (answer 200 (Some (notification 5))) (offline None) no_files))
       = JNum 5
   \<and> count_list (trace (snd (perceptual_update_body python (answer 200 (Some (notification 5))) (offline None) no_files)))
        Enter_update_config = 1
   \<and> answer 304 None
        ''http://apollo/notifications/v2?appId=app&cluster=default&notifications=%5B%7B%22namespaceName%22%3A%20%22application%22%2C%20%22notificationId%22%3A%20-1%7D%5D''
       = Response 304 None
   \<and> fst (perceptual_update_body python (answer 304 None) (offline None) no_files) = offline None
   \<and> trace (snd (perceptual_update_body python (answer 304 None) (offline None) no_files))
       = [Http_get ''http://apollo/notifications/v2?appId=app&cluster=default&notifications=%5B%7B%22namespaceName%22%3A%20%22application%22%2C%20%22notificationId%22%3A%20-1%7D%5D'']"
proof -
  let ?url = "''http://apollo/notifications/v2?appId=app&cluster=default&notifications=%5B%7B%22namespaceName%22%3A%20%22application%22%2C%20%22notificationId%22%3A%20-1%7D%5D''"
  have url: "notification_request_url python (offline None) = Inr ?url"
    by (rule offline_notification_url)
  have r5: "answer 200 (Some (notification 5)) ?url = Response 200 (Some (notification 5))"
    and r304: "answer 304 None ?url = Response 304 None"
    by (simp_all add: answer_def)
  obtain ca wa where a:
    "perceptual_update_body python (answer 200 (Some (notification 5))) (offline None) no_files = (ca, wa)"
    by (cases "perceptual_update_body python (answer 200 (Some (notification 5))) (offline None) no_files")
  obtain cb wb where b:
    "perceptual_update_body python (answer 304 None) (offline None) no_files = (cb, wb)"
    by (cases "perceptual_update_body python (answer 304 None) (offline None) no_files")
  have t0: "trace no_files = []"
    by (simp add: no_files_def)
  from notification_triggers_one_fetch [OF url a] r5 t0
  have "notificationId ca = JNum 5 \<and> count_list (trace wa) Enter_update_config = 1"
    by simp
  moreover from notification_triggers_one_fetch [OF url b] r304 t0
  have "cb = offline None \<and> trace wb = [Http_get ?url]"
    by simp
  ultimately show ?thesis using url r5 r304 a b by simp
qed

text \<open>
  Claim C8 as stated does not hold: \<^verbatim>\<open>perceptual_update\<close> assigns the notification id
  of the response without comparing it with the one it has. After a response that announces
  5, a response that announces 3 sets the notification id to 3.
\<close>

theorem notification_id_decreases:
  "notificationId (fst (perceptual_update_body python (answer 200 (Some (notification 5)))
                    (offline None) no_files)) = JNum 5
   \<and> notificationId
        (fst (perceptual_update_body python (answer 200 (Some (notification 3)))
               (fst (perceptual_update_body python (answer 200 (Some (notification 5)))
                      (offline None) no_files))
               (snd (perceptual_update_body python (answer 200 (Some (notification 5)))
                      (offline None) no_files)))) = JNum 3
   \<and> (3::int) < 5"
proof -
  let ?s5 = "perceptual_update_body python (answer 200 (Some (notification 5))) (offline None) no_files"
  have five: "notificationId (fst ?s5) = JNum 5"
    by (simp add: perceptual_body_notification_id offline_notification_url announced_answer)
  obtain c5 w5 where s5: "?s5 = (c5, w5)"
    by (cases ?s5)
  from perceptual_body_keeps [OF s5]
  have "notification_url c5 = notification_url (offline None)"
    by simp
  then obtain url where "notification_request_url python c5 = Inr url"
    using five s5 by (simp add: notification_request_url_def offline_eq fresh_def)
  then have "notificationId (fst (perceptual_update_body python (answer 200 (Some (notification 3))) c5 w5))
      = JNum 3"
    by (simp add: perceptual_body_notification_id announced_answer)
  with five s5 show ?thesis by simp
qed

text \<open>
  Claim C8, amended. The notification id is -1 in every client that has just been built.
  \<^verbatim>\<open>update_config\<close>, \<^verbatim>\<open>connect\<close>, a pass of \<^verbatim>\<open>schedule_update\<close> and \<^verbatim>\<open>close\<close>
  leave it as it is. A pass of \<^verbatim>\<open>perceptual_update\<close> leaves it as it is when no request
  is made or the response announces no id, and otherwise sets it to the id the response
  announces, be that id greater or smaller than the one before.
\<close>

theorem notification_id_follows_server:
  "notificationId (fresh fn) = JNum (- 1)
   \<and> (\<forall>c0. init L w fn = Inr c0 \<longrightarrow> notificationId c0 = JNum (- 1))
   \<and> notificationId (fst (snd (update_config L h c w))) = notificationId c
   \<and> notificationId (fst (connect L h server_url appId clusterName ns c w)) = notificationId c
   \<and> notificationId (fst (snd (schedule_update_body L h interval c w))) = notificationId c
   \<and> notificationId (close c) = notificationId c
   \<and> notificationId (fst (perceptual_update_body L h c w))
       = (case notification_request_url L c of
            Inl e \<Rightarrow> notificationId c
          | Inr url \<Rightarrow> (case announced (h url) of None \<Rightarrow> notificationId c | Some n \<Rightarrow> n))"
proof -
  have 1: "notificationId (fresh fn) = JNum (- 1)"
    by (simp add: fresh_def)
  have 2: "notificationId c0 = JNum (- 1)" if "init L w fn = Inr c0" for c0
    using that by (auto simp: init_def fresh_def split: option.splits file_node.splits sum.splits)
  have 3: "notificationId (fst (snd (update_config L h' c' w'))) = notificationId c'" for h' c' w'
    using update_config_keeps [of L h' c' w'] by (cases "update_config L h' c' w'") simp
  have 4: "notificationId (fst (connect L h server_url appId clusterName ns c w)) = notificationId c"
    using 3 by (simp add: connect_def Let_def split_beta)
  have 5: "notificationId (fst (snd (schedule_update_body L h interval c w))) = notificationId c"
    using 3 by (simp add: schedule_update_body_def Let_def split_beta)
  have 6: "notificationId (close c) = notificationId c"
    by (simp add: close_def)
  from 1 2 3 4 5 6 perceptual_body_notification_id show ?thesis
    by blast
qed

theorem notification_id_follows_server_witness:
  "init python no_files None = Inr (fresh None)
   \<and> notificationId (fresh None) = JNum (- 1)
   \<and> notificationId (fst (perceptual_update_body python (answer 200 (Some (notification 7)))
                          (offline None) no_files)) = JNum 7"
proof -
  have i: "init python no_files None = Inr (fresh None)"
    by (simp add: init_def)
  from notification_id_follows_server
    [where fn = None and L = python and w = no_files and h = "answer 200 (Some (notification 7))"
       and c = "offline None"] i
  show ?thesis
    by (simp add: offline_notification_url announced_answer)
qed

section \<open>The loops after \<^verbatim>\<open>close\<close>\<close>

text \<open>No pass through a loop body assigns to \<^verbatim>\<open>self.sign\<close>.\<close>

lemma schedule_body_keeps_sign:
  "sign (fst (snd (schedule_update_body L h interval c w))) = sign c"
  using update_config_keeps [of L h c w]
  by (cases "update_config L h c w") (simp add: schedule_update_body_def Let_def)

lemma perceptual_body_keeps_sign:
  "sign (fst (perceptual_update_body L h c w)) = sign c"
  using perceptual_body_keeps [of L h c w]
  by (cases "perceptual_update_body L h c w") simp

lemma close_idle: "\<not> sign c \<Longrightarrow> close c = c"
  by (simp add: close_def)

text \<open>Once \<^verbatim>\<open>self.sign\<close> is false it stays false, and no thread goes away.\<close>

lemma step_sign:
  assumes "\<not> sign (cl s)"
  shows "\<not> sign (cl (step L s a))"
proof (cases a)
  case (Call_listen interval timeout)
  with assms show ?thesis by (simp add: listen_def)
next
  case Call_close
  then show ?thesis by (simp add: close_def)
next
  case (Test i)
  with assms show ?thesis by (simp add: test_sign_def)
next
  case (Pass i h)
  show ?thesis
  proof (cases "i < length (threads s) \<and> pc (threads s ! i) = In_body")
    case False
    with assms Pass show ?thesis by (auto simp: pass_def)
  next
    case True
    show ?thesis
    proof (cases "loop (threads s ! i)")
      case (Schedule_update interval)
      with True Pass assms schedule_body_keeps_sign [of L h interval "cl s" "wd s"]
      show ?thesis
        by (cases "schedule_update_body L h interval (cl s) (wd s)") (simp add: pass_def Let_def)
    next
      case (Perceptual_update timeout)
      with True Pass assms perceptual_body_keeps_sign [of L h "cl s" "wd s"]
      show ?thesis
        by (cases "perceptual_update_body L h (cl s) (wd s)") (simp add: pass_def Let_def)
    qed
  qed
qed

lemma run_sign: "\<not> sign (cl s) \<Longrightarrow> \<not> sign (cl (run L s as))"
  by (induction as arbitrary: s) (simp_all add: step_sign)

lemma step_length: "length (threads s) \<le> length (threads (step L s a))"
  by (cases a)
    (auto simp: listen_def test_sign_def pass_def Let_def split: loop.splits prod.splits)

lemma run_length: "length (threads s) \<le> length (threads (run L s as))"
proof (induction as arbitrary: s)
  case Nil
  show ?case by simp
next
  case (Cons a as)
  from step_length [of s L a] Cons [of "step L s a"] show ?case by simp
qed

text \<open>
  With \<^verbatim>\<open>self.sign\<close> false, a thread completes at most the pass it is in, never enters
  the body again, and stays finished once it is.
\<close>

lemma step_thread:
  assumes "\<not> sign (cl s)" and "i < length (threads s)"
  shows "passes (threads (step L s a) ! i) + (if pc (threads (step L s a) ! i) = In_body then 1 else 0)
           \<le> passes (threads s ! i) + (if pc (threads s ! i) = In_body then 1 else 0)
       \<and> (pc (threads s ! i) \<noteq> In_body \<longrightarrow> pc (threads (step L s a) ! i) \<noteq> In_body)
       \<and> (pc (threads s ! i) = Finished \<longrightarrow> pc (threads (step L s a) ! i) = Finished)"
proof (cases a)
  case (Call_listen interval timeout)
  with assms show ?thesis by (simp add: listen_def nth_append)
next
  case Call_close
  then show ?thesis by simp
next
  case (Test j)
  with assms show ?thesis
    by (cases "j = i") (auto simp: test_sign_def)
next
  case (Pass j h)
  with assms show ?thesis
    by (cases "j = i")
      (auto simp: pass_def Let_def nth_list_update split: loop.splits prod.splits sum.splits)
qed

lemma run_thread:
  assumes "\<not> sign (cl s)" and "i < length (threads s)"
  shows "passes (threads (run L s as) ! i) + (if pc (threads (run L s as) ! i) = In_body then 1 else 0)
           \<le> passes (threads s ! i) + (if pc (threads s ! i) = In_body then 1 else 0)
       \<and> (pc (threads s ! i) \<noteq> In_body \<longrightarrow> pc (threads (run L s as) ! i) \<noteq> In_body)
       \<and> (pc (threads s ! i) = Finished \<longrightarrow> pc (threads (run L s as) ! i) = Finished)"
  using assms
proof (induction as arbitrary: s)
  case Nil
  show ?case by simp
next
  case (Cons a as)
  have s1: "\<not> sign (cl (step L s a))"
    using Cons.prems(1) by (rule step_sign)
  have i1: "i < length (threads (step L s a))"
    using Cons.prems(2) step_length [of s L a] by simp
  from Cons.IH [OF s1 i1] step_thread [OF Cons.prems, of L a]
  show ?case by (simp del: step.simps)
qed

text \<open>With \<^verbatim>\<open>self.sign\<close> false and no thread inside a pass, nothing changes any more.\<close>

lemma step_quiet:
  assumes "\<not> sign (cl s)" and "\<forall>t \<in> set (threads s). pc t \<noteq> In_body"
  shows "cl (step L s a) = cl s \<and> wd (step L s a) = wd s
       \<and> (\<forall>t \<in> set (threads (step L s a)). pc t \<noteq> In_body)"
proof (cases a)
  case (Call_listen interval timeout)
  with assms show ?thesis by (auto simp: listen_def)
next
  case Call_close
  with assms show ?thesis by (simp add: close_idle)
next
  case (Test j)
  with assms show ?thesis
    by (auto simp: test_sign_def dest!: set_update_subset_insert [THEN subsetD])
next
  case (Pass j h)
  with assms show ?thesis
    by (auto simp: pass_def)
qed

lemma run_quiet:
  assumes "\<not> sign (cl s)" and "\<forall>t \<in> set (threads s). pc t \<noteq> In_body"
  shows "cl (run L s as) = cl s \<and> wd (run L s as) = wd s"
  using assms
proof (induction as arbitrary: s)
  case Nil
  show ?case by simp
next
  case (Cons a as)
  from step_quiet [OF Cons.prems, of L a] step_sign [OF Cons.prems(1), of L a]
  have "cl (run L (step L s a) as) = cl (step L s a) \<and> wd (run L (step L s a) as) = wd (step L s a)"
    by (intro Cons.IH) auto
  with step_quiet [OF Cons.prems, of L a] show ?case by simp
qed

lemma test_leaves_loop:
  assumes "\<not> sign (cl s)" and "i < length (threads s)" and "pc (threads s ! i) = At_test"
  shows "pc (threads (step L s (Test i)) ! i) = Finished"
  using assms by (simp add: test_sign_def)

text \<open>
  A thread inside its body leaves it by completing the pass, and with \<^verbatim>\<open>self.sign\<close>
  false a completed pass followed by a test ends the thread.
\<close>

lemma run_append: "run L s (as @ bs) = run L (run L s as) bs"
  by (induction as arbitrary: s) simp_all

lemma pass_leaves_body:
  assumes "i < length (threads s)" and "pc (threads s ! i) = In_body"
  shows "pc (threads (step L s (Pass i h)) ! i) \<noteq> In_body
       \<and> passes (threads (step L s (Pass i h)) ! i) = Suc (passes (threads s ! i))"
  using assms
  by (auto simp: pass_def Let_def split: loop.splits prod.splits sum.splits)

lemma pass_then_test_finishes:
  assumes off: "\<not> sign (cl s)" and i: "i < length (threads s)"
  shows "pc (threads (run L s (bs1 @ Pass i h # bs2 @ Test i # bs3)) ! i) = Finished"
proof -
  let ?s1 = "run L s bs1"
  let ?s2 = "step L ?s1 (Pass i h)"
  let ?s3 = "run L ?s2 bs2"
  let ?s4 = "step L ?s3 (Test i)"
  have off1: "\<not> sign (cl ?s1)" using off by (rule run_sign)
  have i1: "i < length (threads ?s1)" using i run_length [of s L bs1] by simp
  have off2: "\<not> sign (cl ?s2)" using off1 by (rule step_sign)
  have i2: "i < length (threads ?s2)" using i1 step_length [of ?s1 L "Pass i h"] by simp
  have off3: "\<not> sign (cl ?s3)" using off2 by (rule run_sign)
  have i3: "i < length (threads ?s3)" using i2 run_length [of ?s2 L bs2] by simp
  have off4: "\<not> sign (cl ?s4)" using off3 by (rule step_sign)
  have i4: "i < length (threads ?s4)" using i3 step_length [of ?s3 L "Test i"] by simp
  have p2: "pc (threads ?s2 ! i) \<noteq> In_body"
  proof (cases "pc (threads ?s1 ! i) = In_body")
    case True
    with pass_leaves_body [OF i1, of L h] show ?thesis by blast
  next
    case False
    with step_thread [OF off1 i1, of L "Pass i h"] show ?thesis by blast
  qed
  have p3: "pc (threads ?s3 ! i) \<noteq> In_body"
    using run_thread [OF off2 i2, of L bs2] p2 by blast
  have p4: "pc (threads ?s4 ! i) = Finished"
  proof (cases "pc (threads ?s3 ! i)")
    case At_test
    with off3 i3 show ?thesis by (rule test_leaves_loop)
  next
    case In_body
    with p3 show ?thesis by simp
  next
    case Finished
    with step_thread [OF off3 i3, of L "Test i"] show ?thesis by blast
  qed
  have "pc (threads (run L ?s4 bs3) ! i) = Finished"
    using run_thread [OF off4 i4, of L bs3] p4 by blast
  then show ?thesis
    by (simp add: run_append)
qed

text \<open>The sample systems, computed.\<close>

lemma started_eq:
  "started = \<lparr>cl = offline None, wd = no_files,
      threads = [\<lparr>loop = Schedule_update 30, pc = At_test, passes = 0\<rparr>,
                 \<lparr>loop = Perceptual_update 70, pc = At_test, passes = 0\<rparr>]\<rparr>"
  by (simp add: started_def listen_def)

lemma offline_sign: "sign (offline fn)"
  by (simp add: offline_eq fresh_def)

lemma listening_eq:
  "listening = \<lparr>cl = offline None, wd = no_files,
      threads = [\<lparr>loop = Schedule_update 30, pc = In_body, passes = 0\<rparr>,
                 \<lparr>loop = Perceptual_update 70, pc = In_body, passes = 0\<rparr>]\<rparr>"
  by (simp add: listening_def started_eq test_sign_def offline_sign)

text \<open>
  Claim C9. Let \<open>s\<close> be the system right after \<^verbatim>\<open>close()\<close>. Whatever happens next,
  \<^verbatim>\<open>self.sign\<close> stays false. Every loop thread completes at most one more pass through
  its body, the one it was in when \<^verbatim>\<open>close\<close> was called. A thread inside its body leaves
  it when the pass completes, which counts as one pass; a thread that tests \<^verbatim>\<open>self.sign\<close>
  leaves the loop; a finished thread stays finished. So in every run in which thread \<open>i\<close>
  gets to complete its pass and then to test, whatever the other threads do in between,
  thread \<open>i\<close> is finished. As soon as no thread is inside a pass, the client (with its map
  and release key) and the world never change again. How long a pass takes is not part of
  the model.
\<close>

theorem loops_stop_after_close:
  assumes "s = step L s0 Call_close"
  shows "(\<forall>as. \<not> sign (cl (run L s as)))
       \<and> (\<forall>i as. i < length (threads s) \<longrightarrow>
             passes (threads (run L s as) ! i)
               \<le> passes (threads s ! i) + (if pc (threads s ! i) = In_body then 1 else 0)
             \<and> (pc (threads (run L s as) ! i) = In_body \<longrightarrow>
                  (\<forall>h. pc (threads (step L (run L s as) (Pass i h)) ! i) \<noteq> In_body
                     \<and> passes (threads (step L (run L s as) (Pass i h)) ! i)
                         = Suc (passes (threads (run L s as) ! i))))
             \<and> (pc (threads (run L s as) ! i) = At_test \<longrightarrow>
                  pc (threads (step L (run L s as) (Test i)) ! i) = Finished)
             \<and> (pc (threads (run L s as) ! i) = Finished \<longrightarrow>
                  (\<forall>bs. pc (threads (run L (run L s as) bs) ! i) = Finished))
             \<and> (\<forall>h bs cs. pc (threads (run L s (as @ Pass i h # bs @ Test i # cs)) ! i) = Finished))
       \<and> (\<forall>as. (\<forall>t \<in> set (threads (run L s as)). pc t \<noteq> In_body) \<longrightarrow>
             (\<forall>bs. cl (run L (run L s as) bs) = cl (run L s as)
                  \<and> wd (run L (run L s as) bs) = wd (run L s as)))"
proof -
  have off: "\<not> sign (cl s)"
    by (simp add: assms close_def)
  have later: "\<not> sign (cl (run L s as))" for as
    using off by (rule run_sign)
  have threads: "passes (threads (run L s as) ! i)
               \<le> passes (threads s ! i) + (if pc (threads s ! i) = In_body then 1 else 0)
             \<and> (pc (threads (run L s as) ! i) = In_body \<longrightarrow>
                  (\<forall>h. pc (threads (step L (run L s as) (Pass i h)) ! i) \<noteq> In_body
                     \<and> passes (threads (step L (run L s as) (Pass i h)) ! i)
                         = Suc (passes (threads (run L s as) ! i))))
             \<and> (pc (threads (run L s as) ! i) = At_test \<longrightarrow>
                  pc (threads (step L (run L s as) (Test i)) ! i) = Finished)
             \<and> (pc (threads (run L s as) ! i) = Finished \<longrightarrow>
                  (\<forall>bs. pc (threads (run L (run L s as) bs) ! i) = Finished))
             \<and> (\<forall>h bs cs. pc (threads (run L s (as @ Pass i h # bs @ Test i # cs)) ! i) = Finished)"
    if i: "i < length (threads s)" for i as
  proof -
    have i': "i < length (threads (run L s as))"
      using i run_length [of s L as] by simp
    from run_thread [OF off i, of L as]
    have "passes (threads (run L s as) ! i)
               \<le> passes (threads s ! i) + (if pc (threads s ! i) = In_body then 1 else 0)"
      by simp
    moreover have "pc (threads (step L (run L s as) (Pass i h)) ! i) \<noteq> In_body
                     \<and> passes (threads (step L (run L s as) (Pass i h)) ! i)
                         = Suc (passes (threads (run L s as) ! i))"
      if "pc (threads (run L s as) ! i) = In_body" for h
      using i' that by (rule pass_leaves_body)
    moreover have "pc (threads (step L (run L s as) (Test i)) ! i) = Finished"
      if "pc (threads (run L s as) ! i) = At_test"
      using later i' that by (rule test_leaves_loop)
    moreover have "pc (threads (run L (run L s as) bs) ! i) = Finished"
      if "pc (threads (run L s as) ! i) = Finished" for bs
      using run_thread [OF later i', of L bs] that by simp
    moreover have "pc (threads (run L s (as @ Pass i h # bs @ Test i # cs)) ! i) = Finished" for h bs cs
      using off i by (rule pass_then_test_finishes)
    ultimately show ?thesis by blast
  qed
  have quiet: "cl (run L (run L s as) bs) = cl (run L s as)
                  \<and> wd (run L (run L s as) bs) = wd (run L s as)"
    if "\<forall>t \<in> set (threads (run L s as)). pc t \<noteq> In_body" for as bs
    using later that by (rule run_quiet)
  from later threads quiet show ?thesis by blast
qed

theorem loops_stop_after_close_witness:
  "length (threads (step python listening Call_close)) = 2
   \<and> pc (threads (step python listening Call_close) ! 0) = In_body
   \<and> passes (threads (step python listening Call_close) ! 0) = 0
   \<and> passes (threads (step python (step python listening Call_close)
                 (Pass 0 (answer 200 (Some body_x1_r2)))) ! 0) = 1
   \<and> pc (threads (run python (step python listening Call_close)
                 [Pass 0 (answer 200 (Some body_x1_r2)), Test 0]) ! 0) = Finished
   \<and> pc (threads (run python (step python listening Call_close)
                 [Pass 1 (answer 304 None), Test 0, Test 1]) ! 1) = Finished
   \<and> passes (threads (run python (step python listening Call_close)
                 [Pass 0 (answer 200 (Some body_x1_r2)), Test 0, Pass 0 (answer 200 (Some body_x1_r2))]) ! 0) \<le> 1
   \<and> \<not> sign (cl (run python (step python listening Call_close) [Pass 0 (answer 200 (Some body_x1_r2))]))
   \<and> pc (threads (step python started Call_close) ! 1) = At_test
   \<and> pc (threads (step python (step python started Call_close) (Test 1)) ! 1) = Finished
   \<and> In_body \<notin> set (map pc (threads (step python started Call_close)))
   \<and> cl (run python (step python started Call_close)
            [Test 0, Pass 0 (answer 200 (Some body_x1_r2)), Test 1])
        = cl (step python started Call_close)
   \<and> wd (run python (step python started Call_close)
            [Test 0, Pass 0 (answer 200 (Some body_x1_r2)), Test 1])
        = wd (step python started Call_close)"
proof -
  let ?A = "step python listening Call_close"
  let ?B = "step python started Call_close"
  let ?h = "answer 200 (Some body_x1_r2)"
  have a1: "length (threads ?A) = 2" and a2: "pc (threads ?A ! 0) = In_body"
    and a3: "passes (threads ?A ! 0) = 0"
    by (simp_all add: listening_eq)
  have a0: "0 < length (threads ?A)" and a1': "1 < length (threads ?A)"
    using a1 by simp_all
  have b1: "length (threads ?B) = 2" and b2: "pc (threads ?B ! 1) = At_test"
    and b3: "In_body \<notin> set (map pc (threads ?B))"
    by (simp_all add: started_eq)
  have b1': "1 < length (threads ?B)"
    using b1 by simp
  have b4: "\<forall>t \<in> set (threads (run python ?B [])). pc t \<noteq> In_body"
    using b3 by (auto simp: image_iff)
  note A = loops_stop_after_close [of ?A python listening, OF refl]
  note B = loops_stop_after_close [of ?B python started, OF refl]
  from A have "\<not> sign (cl (run python ?A [Pass 0 ?h]))"
    by blast
  moreover from A a0 have "passes (threads (run python ?A [Pass 0 ?h, Test 0, Pass 0 ?h]) ! 0)
      \<le> passes (threads ?A ! 0) + (if pc (threads ?A ! 0) = In_body then 1 else 0)"
    by blast
  then have "passes (threads (run python ?A [Pass 0 ?h, Test 0, Pass 0 ?h]) ! 0) \<le> 1"
    using a2 a3 by simp
  moreover from A a0 have "pc (threads (run python ?A []) ! 0) = In_body \<longrightarrow>
      passes (threads (step python (run python ?A []) (Pass 0 ?h)) ! 0)
         = Suc (passes (threads (run python ?A []) ! 0))"
    by blast
  then have "passes (threads (step python ?A (Pass 0 ?h)) ! 0) = 1"
    using a2 a3 by simp
  moreover from A a0
  have "pc (threads (run python ?A ([] @ Pass 0 ?h # [] @ Test 0 # [])) ! 0) = Finished"
    by blast
  then have "pc (threads (run python ?A [Pass 0 ?h, Test 0]) ! 0) = Finished"
    by simp
  moreover from A a1'
  have "pc (threads (run python ?A ([] @ Pass 1 (answer 304 None) # [Test 0] @ Test 1 # [])) ! 1) = Finished"
    by blast
  then have "pc (threads (run python ?A [Pass 1 (answer 304 None), Test 0, Test 1]) ! 1) = Finished"
    by simp
  moreover from B b1' have "pc (threads (run python ?B []) ! 1) = At_test \<longrightarrow>
       pc (threads (step python (run python ?B []) (Test 1)) ! 1) = Finished"
    by blast
  then have "pc (threads (step python ?B (Test 1)) ! 1) = Finished"
    using b2 by simp
  moreover from B b4 have "cl (run python (run python ?B []) [Test 0, Pass 0 ?h, Test 1]) = cl (run python ?B [])
      \<and> wd (run python (run python ?B []) [Test 0, Pass 0 ?h, Test 1]) = wd (run python ?B [])"
    by blast
  then have "cl (run python ?B [Test 0, Pass 0 ?h, Test 1]) = cl ?B
      \<and> wd (run python ?B [Test 0, Pass 0 ?h, Test 1]) = wd ?B"
    by (simp only: run.simps(1))
  ultimately show ?thesis using a1 a2 a3 b2 b3 by blast
qed

end
